theory Spec2Isabelle
  imports Complex_Main "HOL-Library.Log_Nat" "HOL-Library.Signed_Division"
begin

section \<open>Single-precision arithmetic\<close>

text \<open>
  Every time, distance and vertex coordinate of anim4dc is a C \<^verbatim>\<open>float\<close>. The model is
  IEEE-754 binary32 with round-to-nearest-even: a value is a rational number, an infinity
  or a NaN, and every arithmetic operation rounds its exact result with \<open>round32\<close>, so
  that what the operations return are binary32 numbers; a \<open>Finite\<close> value that comes from
  outside is meant to be one (\<open>is_binary32\<close>). Two things are left out: the sign of zero
  (no comparison of the program tells \<open>-0\<close> from \<open>+0\<close>) and the flush-to-zero mode of the
  SH-4 for subnormal numbers. The integers of the program are unbounded here, except in two
  places where the 32 bits of an \<^verbatim>\<open>int\<close> matter: the memory accounting, where the
  wrap-around is written out, and the frame counter of the bake, whose overflow is undefined
  behaviour.
\<close>

datatype float = Finite rat | PInf | NInf | NaN

definition pow2 :: "int \<Rightarrow> rat" where
  "pow2 k = (if 0 \<le> k then 2 ^ nat k else 1 / 2 ^ nat (- k))"

text \<open>\<open>ilog2 a\<close> is the exponent \<open>e\<close> with \<open>2^e \<le> a < 2^(e+1)\<close>, for \<open>a > 0\<close>.\<close>

definition ilog2 :: "rat \<Rightarrow> int" where
  "ilog2 a = (if 1 \<le> a then bitlen \<lfloor>a\<rfloor> - 1 else - bitlen (\<lceil>1 / a\<rceil> - 1))"

definition round_half_even :: "rat \<Rightarrow> int" where
  "round_half_even r =
     (let f = \<lfloor>r\<rfloor>; d = r - of_int f
      in if d < 1 / 2 then f else if 1 / 2 < d then f + 1 else if even f then f else f + 1)"

text \<open>
  Rounding to binary32: 24 significant bits, the least exponent of the last place is
  \<open>-149\<close>, and a result that rounds to \<open>2^128\<close> or more overflows to an infinity.
\<close>

definition round32 :: "rat \<Rightarrow> float" where
  "round32 x =
     (if x = 0 then Finite 0
      else let a = \<bar>x\<bar>;
               q = pow2 (max (ilog2 a - 23) (- 149));
               y = of_int (round_half_even (a / q)) * q
           in if pow2 128 \<le> y then (if 0 < x then PInf else NInf)
              else Finite (if 0 < x then y else - y))"

text \<open>The rationals that are binary32 values: rounding leaves them as they are.\<close>

definition is_binary32 :: "rat \<Rightarrow> bool" where
  "is_binary32 x \<longleftrightarrow> round32 x = Finite x"

fun is_finite :: "float \<Rightarrow> bool" where
  "is_finite (Finite a) = True"
| "is_finite PInf = False"
| "is_finite NInf = False"
| "is_finite NaN = False"

fun fneg :: "float \<Rightarrow> float" where
  "fneg (Finite a) = Finite (- a)"
| "fneg PInf = NInf"
| "fneg NInf = PInf"
| "fneg NaN = NaN"

fun fadd :: "float \<Rightarrow> float \<Rightarrow> float" where
  "fadd NaN _ = NaN"
| "fadd _ NaN = NaN"
| "fadd PInf NInf = NaN"
| "fadd NInf PInf = NaN"
| "fadd PInf _ = PInf"
| "fadd _ PInf = PInf"
| "fadd NInf _ = NInf"
| "fadd _ NInf = NInf"
| "fadd (Finite a) (Finite b) = round32 (a + b)"

definition fsub :: "float \<Rightarrow> float \<Rightarrow> float" where
  "fsub a b = fadd a (fneg b)"

fun fmul :: "float \<Rightarrow> float \<Rightarrow> float" where
  "fmul NaN _ = NaN"
| "fmul _ NaN = NaN"
| "fmul (Finite a) (Finite b) = round32 (a * b)"
| "fmul (Finite a) PInf = (if a = 0 then NaN else if 0 < a then PInf else NInf)"
| "fmul (Finite a) NInf = (if a = 0 then NaN else if 0 < a then NInf else PInf)"
| "fmul PInf (Finite b) = (if b = 0 then NaN else if 0 < b then PInf else NInf)"
| "fmul NInf (Finite b) = (if b = 0 then NaN else if 0 < b then NInf else PInf)"
| "fmul PInf PInf = PInf"
| "fmul PInf NInf = NInf"
| "fmul NInf PInf = NInf"
| "fmul NInf NInf = PInf"

fun fdiv :: "float \<Rightarrow> float \<Rightarrow> float" where
  "fdiv NaN _ = NaN"
| "fdiv _ NaN = NaN"
| "fdiv (Finite a) (Finite b) =
     (if b = 0 then (if a = 0 then NaN else if 0 < a then PInf else NInf)
      else round32 (a / b))"
| "fdiv (Finite a) PInf = Finite 0"
| "fdiv (Finite a) NInf = Finite 0"
| "fdiv PInf (Finite b) = (if 0 \<le> b then PInf else NInf)"
| "fdiv NInf (Finite b) = (if 0 \<le> b then NInf else PInf)"
| "fdiv PInf PInf = NaN"
| "fdiv PInf NInf = NaN"
| "fdiv NInf PInf = NaN"
| "fdiv NInf NInf = NaN"

text \<open>The comparisons of C: every comparison with a NaN is false.\<close>

fun flt :: "float \<Rightarrow> float \<Rightarrow> bool" where
  "flt NaN _ = False"
| "flt _ NaN = False"
| "flt (Finite a) (Finite b) = (a < b)"
| "flt (Finite a) PInf = True"
| "flt (Finite a) NInf = False"
| "flt PInf _ = False"
| "flt NInf (Finite b) = True"
| "flt NInf PInf = True"
| "flt NInf NInf = False"

fun fle :: "float \<Rightarrow> float \<Rightarrow> bool" where
  "fle NaN _ = False"
| "fle _ NaN = False"
| "fle (Finite a) (Finite b) = (a \<le> b)"
| "fle (Finite a) PInf = True"
| "fle (Finite a) NInf = False"
| "fle PInf (Finite b) = False"
| "fle PInf PInf = True"
| "fle PInf NInf = False"
| "fle NInf _ = True"

definition fgt :: "float \<Rightarrow> float \<Rightarrow> bool" where
  "fgt a b = flt b a"

definition fge :: "float \<Rightarrow> float \<Rightarrow> bool" where
  "fge a b = fle b a"

text \<open>The conversion of an \<^verbatim>\<open>int\<close> operand to \<^verbatim>\<open>float\<close>.\<close>

definition float_of_int :: "int \<Rightarrow> float" where
  "float_of_int i = round32 (of_int i)"

section \<open>Constants and data\<close>

definition INT_MAX :: int where
  "INT_MAX = 2147483647"

definition ANIM4DC_MAX_KEYFRAMES :: int where
  "ANIM4DC_MAX_KEYFRAMES = 20"

definition ANIM4DC_MAX_ANIMATIONS :: int where
  "ANIM4DC_MAX_ANIMATIONS = 8"

definition ANIM4DC_LOD_NEAR_DIST2 :: float where
  "ANIM4DC_LOD_NEAR_DIST2 = fmul (Finite 80) (Finite 80)"

definition ANIM4DC_LOD_MID_DIST2 :: float where
  "ANIM4DC_LOD_MID_DIST2 = fmul (Finite 120) (Finite 120)"

definition ANIM4DC_LOD_FAR_DIST2 :: float where
  "ANIM4DC_LOD_FAR_DIST2 = fmul (Finite 160) (Finite 160)"

definition ANIM4DC_LOD_CULL_DIST2 :: float where
  "ANIM4DC_LOD_CULL_DIST2 = fmul (Finite 200) (Finite 200)"

datatype Anim4dcLodLevel =
  ANIM4DC_LOD_NEAR | ANIM4DC_LOD_MID | ANIM4DC_LOD_FAR | ANIM4DC_LOD_FROZEN | ANIM4DC_LOD_CULLED

text \<open>
  A pointer to a vertex buffer is \<open>None\<close> when it is \<^verbatim>\<open>NULL\<close> and \<open>Some\<close> of the
  buffer's floats otherwise. The keyframe buffers and the interpolation buffer are owned by
  the animation system alone, so no two of them alias.
\<close>

record Anim4dcVertexKeyframe =
  vertices :: "float list option"
  kf_vertexCount :: int
  timestamp :: float

record Anim4dcVertexAnimation =
  name :: string
  keyframes :: "Anim4dcVertexKeyframe list"
  keyframeCount :: int
  duration :: float
  looping :: bool

record Anim4dcAnimationSystem =
  animations :: "Anim4dcVertexAnimation list"
  animationCount :: int
  currentAnimation :: int
  currentTime :: float
  interpolationBuffer :: "float list option"
  vertexCount :: int
  initialized :: bool

record Vector3 =
  vec_x :: float
  vec_y :: float
  vec_z :: float

record Anim4dcModelInstance =
  position :: Vector3
  rotation :: Vector3
  scale :: float
  animationIndex :: int
  animationTime :: float
  lodLevel :: Anim4dcLodLevel
  visible :: bool
  distanceSquared :: float

record Anim4dcStats =
  visibleInstances :: int
  culledInstances :: int
  animationUpdates :: int
  averageFPS :: float
  memoryUsageKB :: int

text \<open>
  The parts of raylib's \<^verbatim>\<open>Model\<close>, \<^verbatim>\<open>Mesh\<close> and \<^verbatim>\<open>ModelAnimation\<close> that anim4dc looks at.
  Of the bone and pose pointers only whether they are \<^verbatim>\<open>NULL\<close> is ever tested.
\<close>

datatype pointer = NULL | NonNull

record Mesh =
  mesh_vertexCount :: int
  boneIds :: pointer
  boneWeights :: pointer
  animVertices :: "float list option"

record Model =
  meshCount :: int
  meshes :: "Mesh list"
  boneCount :: int
  bones :: pointer
  bindPose :: pointer

record ModelAnimation =
  anim_boneCount :: int
  anim_bones :: pointer
  framePoses :: pointer
  frameCount :: int

text \<open>The all-zero structures that \<^verbatim>\<open>memset\<close> and the static initialisers produce.\<close>

definition zero_keyframe :: Anim4dcVertexKeyframe where
  "zero_keyframe = \<lparr>vertices = None, kf_vertexCount = 0, timestamp = Finite 0\<rparr>"

definition zero_animation :: Anim4dcVertexAnimation where
  "zero_animation =
     \<lparr>name = [], keyframes = replicate (nat ANIM4DC_MAX_KEYFRAMES) zero_keyframe,
      keyframeCount = 0, duration = Finite 0, looping = False\<rparr>"

definition zero_system :: Anim4dcAnimationSystem where
  "zero_system =
     \<lparr>animations = replicate (nat ANIM4DC_MAX_ANIMATIONS) zero_animation,
      animationCount = 0, currentAnimation = 0, currentTime = Finite 0,
      interpolationBuffer = None, vertexCount = 0, initialized = False\<rparr>"

definition zero_stats :: Anim4dcStats where
  "zero_stats =
     \<lparr>visibleInstances = 0, culledInstances = 0, animationUpdates = 0,
      averageFPS = Finite 0, memoryUsageKB = 0\<rparr>"

text \<open>
  The two fixed-size arrays of the system structure are lists here; \<open>arrays_ok\<close> says
  that they have the sizes the C declarations give them.
\<close>

definition arrays_ok :: "Anim4dcAnimationSystem \<Rightarrow> bool" where
  "arrays_ok s \<longleftrightarrow>
     length (animations s) = nat ANIM4DC_MAX_ANIMATIONS \<and>
     list_all (\<lambda>a. length (keyframes a) = nat ANIM4DC_MAX_KEYFRAMES) (animations s)"

text \<open>
  Reading through a vertex pointer. The program dereferences the pointers of the keyframes
  below \<open>keyframeCount\<close> without a test; a \<^verbatim>\<open>NULL\<close> there is undefined behaviour in C
  and an empty buffer here.
\<close>

definition buffer_of :: "float list option \<Rightarrow> float list" where
  "buffer_of p = (case p of None \<Rightarrow> [] | Some v \<Rightarrow> v)"

section \<open>Internal helpers\<close>

text \<open>
  \<^verbatim>\<open>Anim4dcInterpolateVertices\<close>: the loop over \<open>i < vertexCount * 3\<close> (the parameter
  is \<open>vcount\<close> here, \<open>vertexCount\<close> being the name of a field), with one component
  computed by \<open>lerp\<close>. The three buffers hold at least \<open>vertexCount * 3\<close> floats each in
  every call the program makes; on shorter lists the C code would read or write out of
  bounds, and the theorems about the loop assume the lengths.
\<close>

definition lerp :: "float \<Rightarrow> float \<Rightarrow> float \<Rightarrow> float" where
  "lerp v1 v2 t = fadd v1 (fmul (fsub v2 v1) t)"

function interpolate_from ::
  "int \<Rightarrow> float list \<Rightarrow> float list \<Rightarrow> float list \<Rightarrow> float \<Rightarrow> int \<Rightarrow> float list" where
  "interpolate_from i out vertices1 vertices2 t vcount =
     (if i < vcount * 3
      then interpolate_from (i + 1)
             (out[nat i := lerp (vertices1 ! nat i) (vertices2 ! nat i) t])
             vertices1 vertices2 t vcount
      else out)"
  by pat_completeness auto
termination
  by (relation "measure (\<lambda>(i, out, vertices1, vertices2, t, vcount). nat (vcount * 3 - i))")
     auto

declare interpolate_from.simps [simp del]

definition Anim4dcInterpolateVertices ::
  "float list \<Rightarrow> float list \<Rightarrow> float list \<Rightarrow> float \<Rightarrow> int \<Rightarrow> float list" where
  "Anim4dcInterpolateVertices out vertices1 vertices2 t vcount =
     interpolate_from 0 out vertices1 vertices2 t vcount"

text \<open>
  \<^verbatim>\<open>malloc\<close> and raylib's \<^verbatim>\<open>UpdateModelAnimation\<close> are the environment of the bake.
  A \<open>heap\<close> tells for the \<open>m\<close>-th allocation of a run whether it fails (\<open>None\<close>) or
  succeeds, and then what the fresh block happens to contain. \<open>malloc h m n\<close> is the
  result of that allocation for \<open>n\<close> floats.
\<close>

type_synonym heap = "nat \<Rightarrow> (nat \<Rightarrow> float) option"

definition malloc :: "heap \<Rightarrow> nat \<Rightarrow> int \<Rightarrow> float list option" where
  "malloc h m n = (case h m of None \<Rightarrow> None | Some fill \<Rightarrow> Some (map fill [0..<nat n]))"

text \<open>
  \<^verbatim>\<open>Anim4dcCaptureVertexKeyframe\<close>. The second component of the result counts the
  allocations made so far. \<open>vertexData\<close> is \<^verbatim>\<open>model.meshes[0].animVertices\<close>, which raylib
  allocates with \<open>vertexCount * 3\<close> floats, so \<^verbatim>\<open>memcpy\<close> copies that many.
\<close>

definition Anim4dcCaptureVertexKeyframe ::
  "heap \<Rightarrow> Anim4dcVertexAnimation \<times> nat \<Rightarrow> float \<Rightarrow> float list \<Rightarrow> int
     \<Rightarrow> Anim4dcVertexAnimation \<times> nat" where
  "Anim4dcCaptureVertexKeyframe h am stamp vertexData vcount =
     (let animation = fst am; m = snd am
      in if keyframeCount animation \<ge> ANIM4DC_MAX_KEYFRAMES then (animation, m)
         else
           let k = nat (keyframeCount animation);
               keyframe = keyframes animation ! k
           in case malloc h m (vcount * 3) of
                None \<Rightarrow>
                  (animation\<lparr>keyframes := (keyframes animation)[k := keyframe\<lparr>vertices := None\<rparr>]\<rparr>,
                   Suc m)
              | Some fresh \<Rightarrow>
                  (animation
                     \<lparr>keyframes := (keyframes animation)
                        [k := keyframe\<lparr>vertices := Some (take (nat (vcount * 3)) vertexData),
                                        kf_vertexCount := vcount, timestamp := stamp\<rparr>],
                      keyframeCount := keyframeCount animation + 1\<rparr>,
                   Suc m))"

section \<open>Core functions\<close>

text \<open>
  The two globals \<^verbatim>\<open>anim4dc\<close> and \<^verbatim>\<open>anim4dc_stats\<close> are passed in and returned.
  Messages printed with \<^verbatim>\<open>printf\<close> are not part of the model.
\<close>

definition Anim4dcInit :: "bool \<times> Anim4dcAnimationSystem \<times> Anim4dcStats" where
  "Anim4dcInit = (True, zero_system\<lparr>currentAnimation := - 1, initialized := True\<rparr>, zero_stats)"

text \<open>
  \<^verbatim>\<open>Anim4dcShutdown\<close> frees every keyframe buffer below the counts and the interpolation
  buffer, and then clears the whole structure, which is all that is left to see.
\<close>

definition Anim4dcShutdown :: "Anim4dcAnimationSystem \<Rightarrow> Anim4dcAnimationSystem" where
  "Anim4dcShutdown s = (if \<not> initialized s then s else zero_system)"

text \<open>
  The caller's arrays \<^verbatim>\<open>model.meshes\<close> and \<^verbatim>\<open>animations\<close> are lists, passed with the
  counts the caller states. A read past the end of one of them is undefined behaviour in
  C; the functions that read them return \<open>None\<close> for it.
\<close>

function has_skinning_from :: "Model \<Rightarrow> int \<Rightarrow> bool option" where
  "has_skinning_from model i =
     (if i < meshCount model
      then if nat i < length (meshes model)
           then let mesh = meshes model ! nat i
                in if boneIds mesh \<noteq> NULL \<and> boneWeights mesh \<noteq> NULL \<and> animVertices mesh \<noteq> None
                   then Some True
                   else has_skinning_from model (i + 1)
           else None
      else Some False)"
  by pat_completeness auto
termination
  by (relation "measure (\<lambda>(model, i). nat (meshCount model - i))") auto

declare has_skinning_from.simps [simp del]

definition Anim4dcCheckModelCompatibility ::
  "Model \<Rightarrow> ModelAnimation list \<Rightarrow> int \<Rightarrow> bool option" where
  "Anim4dcCheckModelCompatibility model anims count =
     (if meshCount model \<le> 0 then Some False
      else if count \<le> 0 then Some False
      else if boneCount model \<le> 0 then Some False
      else if bones model = NULL \<or> bindPose model = NULL then Some False
      else case anims of
             [] \<Rightarrow> None
           | anim # _ \<Rightarrow>
               if anim_boneCount anim \<noteq> boneCount model then Some False
               else if anim_bones anim = NULL \<or> framePoses anim = NULL then Some False
               else case has_skinning_from model 0 of
                      None \<Rightarrow> None
                    | Some hasSkinning \<Rightarrow> if \<not> hasSkinning then Some False else Some True)"

definition animNames :: "string list" where
  "animNames = [''Survey'', ''Walk'', ''Run'', ''Jump'', ''Idle'', ''Attack'', ''Death'', ''Custom'']"

definition keyframeStep :: "ModelAnimation \<Rightarrow> int" where
  "keyframeStep skelAnim = (if frameCount skelAnim > 40 then 8 else 4)"

text \<open>
  The inner loop of the bake, over \<open>frame = 0, keyframeStep, 2 * keyframeStep, ...\<close>.
  \<open>upd model skelAnim frame\<close> stands for what \<^verbatim>\<open>UpdateModelAnimation\<close> leaves in
  \<^verbatim>\<open>model.meshes[0].animVertices\<close>; the call does not change whether that pointer is
  \<^verbatim>\<open>NULL\<close>. The counter \<open>frame\<close> is a 32-bit \<^verbatim>\<open>int\<close>: when \<^verbatim>\<open>frame += keyframeStep\<close>
  would pass \<^verbatim>\<open>INT_MAX\<close> the addition overflows, which is undefined behaviour in C and
  the result \<open>None\<close> here.
\<close>

function bake_frames ::
  "heap \<Rightarrow> (Model \<Rightarrow> ModelAnimation \<Rightarrow> int \<Rightarrow> float list) \<Rightarrow> Model \<Rightarrow> ModelAnimation \<Rightarrow> int
     \<Rightarrow> int \<Rightarrow> Anim4dcVertexAnimation \<times> nat \<Rightarrow> (Anim4dcVertexAnimation \<times> nat) option" where
  "bake_frames h upd model skelAnim vcount frame vm =
     (if frame < frameCount skelAnim
      then if frame + keyframeStep skelAnim \<le> INT_MAX
           then bake_frames h upd model skelAnim vcount (frame + keyframeStep skelAnim)
                  (case animVertices (meshes model ! 0) of
                     None \<Rightarrow> vm
                   | Some _ \<Rightarrow>
                       Anim4dcCaptureVertexKeyframe h vm (fdiv (float_of_int frame) (Finite 20))
                         (upd model skelAnim frame) vcount)
           else None
      else Some vm)"
  by pat_completeness auto
termination
  by (relation "measure (\<lambda>(h, upd, model, skelAnim, vcount, frame, vm).
                  nat (frameCount skelAnim - frame))")
     (auto simp: keyframeStep_def)

declare bake_frames.simps [simp del]

text \<open>
  The outer loop, over the clips \<open>a < animsToBake\<close>; it does not return when the inner
  loop of a clip does not.
\<close>

function bake_animations ::
  "heap \<Rightarrow> (Model \<Rightarrow> ModelAnimation \<Rightarrow> int \<Rightarrow> float list) \<Rightarrow> Model \<Rightarrow> ModelAnimation list \<Rightarrow> int
     \<Rightarrow> int \<Rightarrow> Anim4dcAnimationSystem \<times> nat \<Rightarrow> (Anim4dcAnimationSystem \<times> nat) option" where
  "bake_animations h upd model anims animsToBake a sm =
     (if a < animsToBake
      then if nat a < length anims
           then let s = fst sm;
                    skelAnim = anims ! nat a;
                    vertAnim = (animations s ! nat a)
                      \<lparr>name := (if a < 8 then animNames ! nat a else ''Unknown''),
                       keyframeCount := 0,
                       duration := fdiv (float_of_int (frameCount skelAnim)) (Finite 20),
                       looping := True\<rparr>
                in case bake_frames h upd model skelAnim (vertexCount s) 0 (vertAnim, snd sm) of
                     None \<Rightarrow> None
                   | Some vm \<Rightarrow>
                       bake_animations h upd model anims animsToBake (a + 1)
                         (s\<lparr>animations := (animations s)[nat a := fst vm]\<rparr>, snd vm)
           else None
      else Some sm)"
  by pat_completeness auto
termination
  by (relation "measure (\<lambda>(h, upd, model, anims, animsToBake, a, sm). nat (animsToBake - a))")
     auto

declare bake_animations.simps [simp del]

text \<open>
  \<^verbatim>\<open>Anim4dcCalculateMemoryUsage\<close>. \<^verbatim>\<open>totalMemory\<close> is a 32-bit \<^verbatim>\<open>int\<close> and
  \<^verbatim>\<open>sizeof(float)\<close> is 4 with the 32-bit \<^verbatim>\<open>size_t\<close> of the SH-4: the sum is formed
  modulo \<open>2^32\<close> and stored back as a signed value. The final division by 1024 truncates.
\<close>

definition int32_of_u32 :: "int \<Rightarrow> int" where
  "int32_of_u32 u = (if u < 2 ^ 31 then u else u - 2 ^ 32)"

definition add_bytes :: "int \<Rightarrow> int \<Rightarrow> int" where
  "add_bytes totalMemory vcount = int32_of_u32 ((totalMemory + vcount * 3 * 4) mod 2 ^ 32)"

function usage_keyframes :: "Anim4dcVertexAnimation \<Rightarrow> int \<Rightarrow> int \<Rightarrow> int" where
  "usage_keyframes anim k totalMemory =
     (if k < keyframeCount anim
      then usage_keyframes anim (k + 1)
             (if vertices (keyframes anim ! nat k) \<noteq> None
              then add_bytes totalMemory (kf_vertexCount (keyframes anim ! nat k))
              else totalMemory)
      else totalMemory)"
  by pat_completeness auto
termination
  by (relation "measure (\<lambda>(anim, k, totalMemory). nat (keyframeCount anim - k))") auto

declare usage_keyframes.simps [simp del]

function usage_animations :: "Anim4dcAnimationSystem \<Rightarrow> int \<Rightarrow> int \<Rightarrow> int" where
  "usage_animations s a totalMemory =
     (if a < animationCount s
      then usage_animations s (a + 1) (usage_keyframes (animations s ! nat a) 0 totalMemory)
      else totalMemory)"
  by pat_completeness auto
termination
  by (relation "measure (\<lambda>(s, a, totalMemory). nat (animationCount s - a))") auto

declare usage_animations.simps [simp del]

definition Anim4dcCalculateMemoryUsage :: "Anim4dcAnimationSystem \<Rightarrow> int" where
  "Anim4dcCalculateMemoryUsage s =
     (let totalMemory = usage_animations s 0 0;
          totalMemory = (if interpolationBuffer s \<noteq> None
                         then add_bytes totalMemory (vertexCount s) else totalMemory)
      in totalMemory sdiv 1024)"

definition Anim4dcBakeVertexAnimations ::
  "heap \<Rightarrow> (Model \<Rightarrow> ModelAnimation \<Rightarrow> int \<Rightarrow> float list)
     \<Rightarrow> Anim4dcAnimationSystem \<times> Anim4dcStats \<Rightarrow> Model \<Rightarrow> ModelAnimation list \<Rightarrow> int
     \<Rightarrow> (bool \<times> Anim4dcAnimationSystem \<times> Anim4dcStats) option" where
  "Anim4dcBakeVertexAnimations h upd g model anims count =
     (let s = fst g; stats = snd g
      in if \<not> initialized s then Some (False, s, stats)
         else case Anim4dcCheckModelCompatibility model anims count of
                None \<Rightarrow> None
              | Some False \<Rightarrow> Some (False, s, stats)
              | Some True \<Rightarrow>
                  let animsToBake =
                        (if count > ANIM4DC_MAX_ANIMATIONS then ANIM4DC_MAX_ANIMATIONS else count);
                      s = s\<lparr>animationCount := animsToBake,
                            vertexCount := mesh_vertexCount (meshes model ! 0)\<rparr>
                  in case bake_animations h upd model anims animsToBake 0 (s, 0) of
                       None \<Rightarrow> None
                     | Some (s, m) \<Rightarrow>
                         (case malloc h m (vertexCount s * 3) of
                            None \<Rightarrow> Some (False, s\<lparr>interpolationBuffer := None\<rparr>, stats)
                          | Some fresh \<Rightarrow>
                              let s = s\<lparr>interpolationBuffer := Some fresh,
                                        currentAnimation := 0, currentTime := Finite 0\<rparr>
                              in Some (True, s,
                                       stats\<lparr>memoryUsageKB := Anim4dcCalculateMemoryUsage s\<rparr>)))"

section \<open>Playback\<close>

text \<open>
  The search for the current and the next keyframe: the loop with its \<^verbatim>\<open>break\<close>, which
  leaves the initial values \<open>(0, 1)\<close> when no pair brackets the time; then, in \<open>bracket\<close>,
  the test for the loop-closing pair, which overrides the result of the loop.
\<close>

function find_keyframes :: "Anim4dcVertexAnimation \<Rightarrow> float \<Rightarrow> int \<Rightarrow> int \<times> int" where
  "find_keyframes currentAnim time i =
     (if i < keyframeCount currentAnim - 1
      then if fge time (timestamp (keyframes currentAnim ! nat i)) \<and>
              flt time (timestamp (keyframes currentAnim ! nat (i + 1)))
           then (i, i + 1)
           else find_keyframes currentAnim time (i + 1)
      else (0, 1))"
  by pat_completeness auto
termination
  by (relation "measure (\<lambda>(currentAnim, time, i). nat (keyframeCount currentAnim - 1 - i))") auto

declare find_keyframes.simps [simp del]

definition bracket :: "Anim4dcVertexAnimation \<Rightarrow> float \<Rightarrow> int \<times> int" where
  "bracket currentAnim time =
     (let kf = find_keyframes currentAnim time 0
      in if fge time (timestamp (keyframes currentAnim ! nat (keyframeCount currentAnim - 1)))
         then (keyframeCount currentAnim - 1, 0)
         else kf)"

definition advance_time :: "Anim4dcVertexAnimation \<Rightarrow> float \<Rightarrow> float \<Rightarrow> float" where
  "advance_time currentAnim time deltaTime =
     (let time = fadd time deltaTime
      in if fge time (duration currentAnim) then Finite 0 else time)"

definition clamp01 :: "float \<Rightarrow> float" where
  "clamp01 t = (if flt t (Finite 0) then Finite 0 else if fgt t (Finite 1) then Finite 1 else t)"

definition interpolation_factor :: "Anim4dcVertexAnimation \<Rightarrow> float \<Rightarrow> int \<times> int \<Rightarrow> float" where
  "interpolation_factor currentAnim time kf =
     (let currentKeyframe = fst kf; nextKeyframe = snd kf;
          t1 = timestamp (keyframes currentAnim ! nat currentKeyframe);
          t2 = (if nextKeyframe = 0 then duration currentAnim
                else timestamp (keyframes currentAnim ! nat nextKeyframe));
          t = (if nextKeyframe = 0
               then let timeFromStart = fsub time t1;
                        totalGap = fsub (duration currentAnim) t1
                    in if fgt totalGap (Finite 0) then fdiv timeFromStart totalGap else Finite 0
               else let gap = fsub t2 t1
                    in if fgt gap (Finite 0) then fdiv (fsub time t1) gap else Finite 0)
      in clamp01 t)"

definition Anim4dcUpdateAnimation :: "Anim4dcAnimationSystem \<Rightarrow> float \<Rightarrow> Anim4dcAnimationSystem" where
  "Anim4dcUpdateAnimation s deltaTime =
     (if \<not> initialized s \<or> currentAnimation s < 0 \<or> currentAnimation s \<ge> animationCount s then s
      else
        let currentAnim = animations s ! nat (currentAnimation s)
        in if keyframeCount currentAnim < 2 \<or> interpolationBuffer s = None then s
           else
             let time = advance_time currentAnim (currentTime s) deltaTime;
                 kf = bracket currentAnim time;
                 t = interpolation_factor currentAnim time kf
             in s\<lparr>currentTime := time,
                  interpolationBuffer :=
                    Some (Anim4dcInterpolateVertices
                            (buffer_of (interpolationBuffer s))
                            (buffer_of (vertices (keyframes currentAnim ! nat (fst kf))))
                            (buffer_of (vertices (keyframes currentAnim ! nat (snd kf))))
                            t (vertexCount s))\<rparr>)"

definition Anim4dcGetInterpolatedVertices :: "Anim4dcAnimationSystem \<Rightarrow> float list option" where
  "Anim4dcGetInterpolatedVertices s = interpolationBuffer s"

section \<open>Animation control\<close>

definition Anim4dcSetAnimation ::
  "Anim4dcAnimationSystem \<Rightarrow> int \<Rightarrow> bool \<times> Anim4dcAnimationSystem" where
  "Anim4dcSetAnimation s animationIndex' =
     (if \<not> initialized s \<or> animationIndex' < 0 \<or> animationIndex' \<ge> animationCount s
      then (False, s)
      else (True, s\<lparr>currentAnimation := animationIndex', currentTime := Finite 0\<rparr>))"

text \<open>
  The loop of \<^verbatim>\<open>Anim4dcSetAnimationByName\<close>. A name is the string up to the terminating
  zero, so \<^verbatim>\<open>strcmp(..) == 0\<close> is equality of strings.
\<close>

function set_by_name_from ::
  "Anim4dcAnimationSystem \<Rightarrow> string \<Rightarrow> int \<Rightarrow> bool \<times> Anim4dcAnimationSystem" where
  "set_by_name_from s animationName i =
     (if i < animationCount s
      then if name (animations s ! nat i) = animationName
           then Anim4dcSetAnimation s i
           else set_by_name_from s animationName (i + 1)
      else (False, s))"
  by pat_completeness auto
termination
  by (relation "measure (\<lambda>(s, animationName, i). nat (animationCount s - i))") auto

declare set_by_name_from.simps [simp del]

definition Anim4dcSetAnimationByName ::
  "Anim4dcAnimationSystem \<Rightarrow> string option \<Rightarrow> bool \<times> Anim4dcAnimationSystem" where
  "Anim4dcSetAnimationByName s animationName =
     (if \<not> initialized s then (False, s)
      else case animationName of
             None \<Rightarrow> (False, s)
           | Some nm \<Rightarrow> set_by_name_from s nm 0)"

definition Anim4dcGetCurrentAnimation :: "Anim4dcAnimationSystem \<Rightarrow> int" where
  "Anim4dcGetCurrentAnimation s = currentAnimation s"

definition Anim4dcGetAnimationTime :: "Anim4dcAnimationSystem \<Rightarrow> float" where
  "Anim4dcGetAnimationTime s = currentTime s"

section \<open>Level of detail\<close>

text \<open>
  \<^verbatim>\<open>Vector3Subtract\<close> and \<^verbatim>\<open>Vector3LengthSqr\<close> as raylib's raymath defines them:
  the difference by components, and \<open>x * x + y * y + z * z\<close>.
\<close>

definition Vector3Subtract :: "Vector3 \<Rightarrow> Vector3 \<Rightarrow> Vector3" where
  "Vector3Subtract v1 v2 =
     \<lparr>vec_x = fsub (vec_x v1) (vec_x v2), vec_y = fsub (vec_y v1) (vec_y v2),
      vec_z = fsub (vec_z v1) (vec_z v2)\<rparr>"

definition Vector3LengthSqr :: "Vector3 \<Rightarrow> float" where
  "Vector3LengthSqr v =
     fadd (fadd (fmul (vec_x v) (vec_x v)) (fmul (vec_y v) (vec_y v))) (fmul (vec_z v) (vec_z v))"

text \<open>The body of the loop of \<^verbatim>\<open>Anim4dcUpdateInstanceLOD\<close>, for one instance.\<close>

definition update_instance ::
  "Vector3 \<Rightarrow> Anim4dcModelInstance \<times> Anim4dcStats \<Rightarrow> Anim4dcModelInstance \<times> Anim4dcStats" where
  "update_instance cameraPosition p =
     (let diff = Vector3Subtract (position (fst p)) cameraPosition;
          instance = (fst p)\<lparr>distanceSquared := Vector3LengthSqr diff\<rparr>;
          stats = snd p
      in if fgt (distanceSquared instance) ANIM4DC_LOD_CULL_DIST2
         then (instance\<lparr>lodLevel := ANIM4DC_LOD_CULLED, visible := False\<rparr>,
               stats\<lparr>culledInstances := culledInstances stats + 1\<rparr>)
         else if fgt (distanceSquared instance) ANIM4DC_LOD_FAR_DIST2
         then (instance\<lparr>lodLevel := ANIM4DC_LOD_FAR, visible := True\<rparr>,
               stats\<lparr>visibleInstances := visibleInstances stats + 1\<rparr>)
         else if fgt (distanceSquared instance) ANIM4DC_LOD_MID_DIST2
         then (instance\<lparr>lodLevel := ANIM4DC_LOD_MID, visible := True\<rparr>,
               stats\<lparr>visibleInstances := visibleInstances stats + 1\<rparr>)
         else (instance\<lparr>lodLevel := ANIM4DC_LOD_NEAR, visible := True\<rparr>,
               stats\<lparr>visibleInstances := visibleInstances stats + 1\<rparr>))"

function update_lod_from ::
  "Vector3 \<Rightarrow> int \<Rightarrow> int \<Rightarrow> Anim4dcModelInstance list \<times> Anim4dcStats
     \<Rightarrow> (Anim4dcModelInstance list \<times> Anim4dcStats) option" where
  "update_lod_from cameraPosition instanceCount i p =
     (if i < instanceCount
      then if 0 \<le> i \<and> nat i < length (fst p)
           then let r = update_instance cameraPosition (fst p ! nat i, snd p)
                in update_lod_from cameraPosition instanceCount (i + 1)
                     ((fst p)[nat i := fst r], snd r)
           else None
      else Some p)"
  by pat_completeness auto
termination
  by (relation "measure (\<lambda>(cameraPosition, instanceCount, i, p). nat (instanceCount - i))") auto

declare update_lod_from.simps [simp del]

definition Anim4dcUpdateInstanceLOD ::
  "Anim4dcStats \<Rightarrow> Anim4dcModelInstance list \<Rightarrow> int \<Rightarrow> Vector3
     \<Rightarrow> (Anim4dcModelInstance list \<times> Anim4dcStats) option" where
  "Anim4dcUpdateInstanceLOD stats instances instanceCount cameraPosition =
     update_lod_from cameraPosition instanceCount 0
       (instances, stats\<lparr>visibleInstances := 0, culledInstances := 0\<rparr>)"

definition Anim4dcGetStats :: "Anim4dcStats \<Rightarrow> Anim4dcStats" where
  "Anim4dcGetStats stats = stats"

section \<open>Example inputs\<close>

text \<open>
  A model of one mesh with one vertex and two bones, a skeletal clip of \<open>F\<close> frames, an
  evaluator that writes the frame number into the first coordinate, a heap on which every
  allocation succeeds, one on which the first four succeed and all later ones fail, and one
  on which the first 33 do.
\<close>

definition ex_mesh :: Mesh where
  "ex_mesh = \<lparr>mesh_vertexCount = 1, boneIds = NonNull, boneWeights = NonNull,
              animVertices = Some [Finite 0, Finite 0, Finite 0]\<rparr>"

definition ex_model :: Model where
  "ex_model = \<lparr>meshCount = 1, meshes = [ex_mesh], boneCount = 2, bones = NonNull,
               bindPose = NonNull\<rparr>"

definition ex_anim :: "int \<Rightarrow> ModelAnimation" where
  "ex_anim F = \<lparr>anim_boneCount = 2, anim_bones = NonNull, framePoses = NonNull, frameCount = F\<rparr>"

definition ex_upd :: "Model \<Rightarrow> ModelAnimation \<Rightarrow> int \<Rightarrow> float list" where
  "ex_upd model skelAnim frame = [float_of_int frame, Finite 0, Finite 0]"

definition ex_heap :: heap where
  "ex_heap m = Some (\<lambda>i. Finite 0)"

definition ex_heap_short :: heap where
  "ex_heap_short m = (if m < 4 then Some (\<lambda>i. Finite 0) else None)"

definition ex_heap_keyframes :: heap where
  "ex_heap_keyframes m = (if m < 33 then Some (\<lambda>i. Finite 0) else None)"

text \<open>
  The state after \<^verbatim>\<open>Anim4dcInit\<close> and a bake of two clips of 8 frames each: each clip
  gets the keyframes of the frames 0 and 4, with the timestamps \<open>0\<close> and \<open>0.2\<close> and
  the duration \<open>0.4\<close>, both rounded to binary32.
\<close>

definition ex_keyframe :: "rat \<Rightarrow> rat \<Rightarrow> Anim4dcVertexKeyframe" where
  "ex_keyframe v stamp =
     \<lparr>vertices = Some [Finite v, Finite 0, Finite 0], kf_vertexCount = 1,
      timestamp = Finite stamp\<rparr>"

definition ex_clip :: "string \<Rightarrow> Anim4dcVertexAnimation" where
  "ex_clip nm =
     \<lparr>name = nm,
      keyframes = [ex_keyframe 0 0, ex_keyframe 4 (13421773 / 67108864)]
                  @ replicate 18 zero_keyframe,
      keyframeCount = 2, duration = Finite (13421773 / 33554432), looping = True\<rparr>"

definition ex_baked :: Anim4dcAnimationSystem where
  "ex_baked =
     \<lparr>animations = [ex_clip ''Survey'', ex_clip ''Walk''] @ replicate 6 zero_animation,
      animationCount = 2, currentAnimation = 0, currentTime = Finite 0,
      interpolationBuffer = Some [Finite 0, Finite 0, Finite 0],
      vertexCount = 1, initialized = True\<rparr>"

text \<open>
  The state after a bake of one clip of 12 frames, which has the three keyframes of the
  frames 0, 4 and 8 and the duration \<open>0.6\<close>.
\<close>

definition ex_clip3 :: Anim4dcVertexAnimation where
  "ex_clip3 =
     \<lparr>name = ''Survey'',
      keyframes = [ex_keyframe 0 0, ex_keyframe 4 (13421773 / 67108864),
                   ex_keyframe 8 (13421773 / 33554432)]
                  @ replicate 17 zero_keyframe,
      keyframeCount = 3, duration = Finite (5033165 / 8388608), looping = True\<rparr>"

definition ex_baked3 :: Anim4dcAnimationSystem where
  "ex_baked3 =
     \<lparr>animations = [ex_clip3] @ replicate 7 zero_animation,
      animationCount = 1, currentAnimation = 0, currentTime = Finite 0,
      interpolationBuffer = Some [Finite 0, Finite 0, Finite 0],
      vertexCount = 1, initialized = True\<rparr>"

text \<open>The state one playback step of an eighth of a second later.\<close>

definition ex_playing :: Anim4dcAnimationSystem where
  "ex_playing =
     ex_baked\<lparr>currentTime := Finite (1 / 8),
              interpolationBuffer := Some [Finite (5 / 2), Finite 0, Finite 0]\<rparr>"

text \<open>
  The state when the allocation of the interpolation buffer fails in that bake and clip 0
  is selected afterwards.
\<close>

definition ex_unbuffered :: Anim4dcAnimationSystem where
  "ex_unbuffered = ex_baked\<lparr>interpolationBuffer := None\<rparr>"

text \<open>
  The same bake for a model of 100 vertices, whose evaluator leaves all coordinates at 0:
  two clips of two keyframes of 300 floats each, and an interpolation buffer of 300 floats.
\<close>

definition ex_wide_mesh :: Mesh where
  "ex_wide_mesh = \<lparr>mesh_vertexCount = 100, boneIds = NonNull, boneWeights = NonNull,
                   animVertices = Some (replicate 300 (Finite 0))\<rparr>"

definition ex_wide_model :: Model where
  "ex_wide_model = \<lparr>meshCount = 1, meshes = [ex_wide_mesh], boneCount = 2, bones = NonNull,
                    bindPose = NonNull\<rparr>"

definition ex_wide_upd :: "Model \<Rightarrow> ModelAnimation \<Rightarrow> int \<Rightarrow> float list" where
  "ex_wide_upd model skelAnim frame = replicate 300 (Finite 0)"

definition ex_wide_keyframe :: "rat \<Rightarrow> Anim4dcVertexKeyframe" where
  "ex_wide_keyframe stamp =
     \<lparr>vertices = Some (replicate 300 (Finite 0)), kf_vertexCount = 100,
      timestamp = Finite stamp\<rparr>"

definition ex_wide_clip :: "string \<Rightarrow> Anim4dcVertexAnimation" where
  "ex_wide_clip nm =
     \<lparr>name = nm,
      keyframes = [ex_wide_keyframe 0, ex_wide_keyframe (13421773 / 67108864)]
                  @ replicate 18 zero_keyframe,
      keyframeCount = 2, duration = Finite (13421773 / 33554432), looping = True\<rparr>"

definition ex_wide :: Anim4dcAnimationSystem where
  "ex_wide =
     \<lparr>animations = [ex_wide_clip ''Survey'', ex_wide_clip ''Walk''] @ replicate 6 zero_animation,
      animationCount = 2, currentAnimation = 0, currentTime = Finite 0,
      interpolationBuffer = Some (replicate 300 (Finite 0)),
      vertexCount = 100, initialized = True\<rparr>"

text \<open>
  For the bake: the state that \<^verbatim>\<open>Anim4dcInit\<close> leaves, a model whose first mesh is
  static and whose second mesh is the skinned one, and a heap on which the second
  allocation fails.
\<close>

definition ex_fresh :: Anim4dcAnimationSystem where
  "ex_fresh = zero_system\<lparr>currentAnimation := - 1, initialized := True\<rparr>"

definition ex_static_mesh :: Mesh where
  "ex_static_mesh = \<lparr>mesh_vertexCount = 1, boneIds = NULL, boneWeights = NULL,
                     animVertices = None\<rparr>"

definition ex_two_mesh_model :: Model where
  "ex_two_mesh_model = \<lparr>meshCount = 2, meshes = [ex_static_mesh, ex_mesh], boneCount = 2,
                        bones = NonNull, bindPose = NonNull\<rparr>"

definition ex_heap_gap :: heap where
  "ex_heap_gap m = (if m = 1 then None else Some (\<lambda>i. Finite 0))"

text \<open>Instances in the plane \<open>z = 0\<close>, for a camera at the origin.\<close>

definition ex_origin :: Vector3 where
  "ex_origin = \<lparr>vec_x = Finite 0, vec_y = Finite 0, vec_z = Finite 0\<rparr>"

definition ex_instance :: "rat \<Rightarrow> rat \<Rightarrow> Anim4dcModelInstance" where
  "ex_instance a b =
     \<lparr>position = \<lparr>vec_x = Finite a, vec_y = Finite b, vec_z = Finite 0\<rparr>,
      rotation = ex_origin, scale = Finite 1, animationIndex = 0, animationTime = Finite 0,
      lodLevel = ANIM4DC_LOD_FROZEN, visible = False, distanceSquared = Finite 0\<rparr>"

section \<open>Notions used in the statements\<close>

text \<open>\<open>first_named s nm k\<close>: clip \<open>k\<close> is the first of the baked clips whose name is \<open>nm\<close>.\<close>

definition first_named :: "Anim4dcAnimationSystem \<Rightarrow> string \<Rightarrow> int \<Rightarrow> bool" where
  "first_named s nm k \<longleftrightarrow>
     0 \<le> k \<and> k < animationCount s \<and> name (animations s ! nat k) = nm \<and>
     (\<forall>j. 0 \<le> j \<and> j < k \<longrightarrow> name (animations s ! nat j) \<noteq> nm)"

text \<open>
  For the keyframe search: the timestamp of keyframe \<open>i\<close> of a clip; \<open>brackets anim clock i\<close>
  says that the pair \<open>(i, i + 1)\<close> satisfies
  \<open>keyframes[i].timestamp \<le> clock < keyframes[i + 1].timestamp\<close>, and \<open>first_bracket\<close>
  that it is the first such pair; \<open>nondecreasing\<close> says that the timestamps of the
  keyframes of a clip do not decrease; \<open>ratio clock a b\<close> is \<open>(clock - a) / (b - a)\<close>,
  and 0 when the denominator is not positive.
\<close>

definition ts :: "Anim4dcVertexAnimation \<Rightarrow> int \<Rightarrow> float" where
  "ts anim i = timestamp (keyframes anim ! nat i)"

definition brackets :: "Anim4dcVertexAnimation \<Rightarrow> float \<Rightarrow> int \<Rightarrow> bool" where
  "brackets anim clock i \<longleftrightarrow>
     0 \<le> i \<and> i < keyframeCount anim - 1 \<and> fle (ts anim i) clock \<and> flt clock (ts anim (i + 1))"

definition first_bracket :: "Anim4dcVertexAnimation \<Rightarrow> float \<Rightarrow> int \<Rightarrow> bool" where
  "first_bracket anim clock i \<longleftrightarrow>
     brackets anim clock i \<and> (\<forall>j. 0 \<le> j \<and> j < i \<longrightarrow> \<not> brackets anim clock j)"

definition nondecreasing :: "Anim4dcVertexAnimation \<Rightarrow> bool" where
  "nondecreasing anim \<longleftrightarrow>
     (\<forall>i j. 0 \<le> i \<and> i \<le> j \<and> j < keyframeCount anim \<longrightarrow> fle (ts anim i) (ts anim j))"

definition ratio :: "float \<Rightarrow> float \<Rightarrow> float \<Rightarrow> float" where
  "ratio clock a b =
     (if fgt (fsub b a) (Finite 0) then fdiv (fsub clock a) (fsub b a) else Finite 0)"

text \<open>
  \<open>increasing\<close> says that the timestamps of the keyframes of a clip increase strictly,
  as those of a baked clip do; \<open>next_keyframe anim k\<close> is the keyframe played after
  keyframe \<open>k\<close>, which is keyframe 0 after the last one.
\<close>

definition increasing :: "Anim4dcVertexAnimation \<Rightarrow> bool" where
  "increasing anim \<longleftrightarrow>
     (\<forall>i j. 0 \<le> i \<and> i < j \<and> j < keyframeCount anim \<longrightarrow> flt (ts anim i) (ts anim j))"

definition next_keyframe :: "Anim4dcVertexAnimation \<Rightarrow> int \<Rightarrow> int" where
  "next_keyframe anim k = (if k = keyframeCount anim - 1 then 0 else k + 1)"

text \<open>What the classification leaves true of an instance.\<close>

definition lod_consistent :: "Anim4dcModelInstance \<Rightarrow> bool" where
  "lod_consistent instance \<longleftrightarrow>
     (visible instance \<longleftrightarrow> lodLevel instance \<noteq> ANIM4DC_LOD_CULLED) \<and>
     lodLevel instance \<noteq> ANIM4DC_LOD_FROZEN"

text \<open>
  A mesh carries skinning data when its bone ids, bone weights and animated vertices are
  all there; a model has a skinned mesh when one of its \<open>meshCount\<close> meshes does.
\<close>

definition skinned :: "Mesh \<Rightarrow> bool" where
  "skinned mesh \<longleftrightarrow> boneIds mesh \<noteq> NULL \<and> boneWeights mesh \<noteq> NULL \<and> animVertices mesh \<noteq> None"

definition has_skinned_mesh :: "Model \<Rightarrow> bool" where
  "has_skinned_mesh model \<longleftrightarrow>
     (\<exists>k. 0 \<le> k \<and> k < meshCount model \<and> skinned (meshes model ! nat k))"

text \<open>
  For the memory accounting: \<open>uniform_clips s N K V\<close> says that the system holds \<open>N\<close>
  clips of \<open>K\<close> keyframes each, every keyframe with an allocated buffer of \<open>V\<close> vertices,
  and that \<open>V\<close> is the vertex count of the system; \<open>keyframe_bytes V\<close> is the size of one
  such buffer.
\<close>

definition uniform_clips :: "Anim4dcAnimationSystem \<Rightarrow> int \<Rightarrow> int \<Rightarrow> int \<Rightarrow> bool" where
  "uniform_clips s N K V \<longleftrightarrow>
     animationCount s = N \<and> vertexCount s = V \<and>
     (\<forall>a. 0 \<le> a \<and> a < N \<longrightarrow>
        keyframeCount (animations s ! nat a) = K \<and>
        (\<forall>k. 0 \<le> k \<and> k < K \<longrightarrow>
           vertices (keyframes (animations s ! nat a) ! nat k) \<noteq> None \<and>
           kf_vertexCount (keyframes (animations s ! nat a) ! nat k) = V))"

definition keyframe_bytes :: "int \<Rightarrow> int" where
  "keyframe_bytes V = V * 3 * 4"

text \<open>
  For the bake: \<open>sample_of\<close> says that a keyframe is the sample of a frame (its
  timestamp \<open>frame / 20\<close>, its vertices those the evaluator produced for the frame);
  \<open>sampled .. clip j\<close> that the clip holds the samples of the first \<open>j\<close> frames of the
  stride, up to the cap of 20; \<open>frames_below\<close> is the number of frames
  \<open>0, keyframeStep, 2 * keyframeStep, ...\<close> below the frame count; a \<open>baked_clip\<close> holds all
  of them up to the cap and has the duration \<open>frameCount / 20\<close>; \<open>clip_keyframes\<close> is the
  number of keyframes of such a clip, and \<open>keyframe_allocations anims n\<close> that of the
  first \<open>n\<close> clips together, which is the number of buffers the bake allocates for them.
\<close>

definition sample_of ::
  "(Model \<Rightarrow> ModelAnimation \<Rightarrow> int \<Rightarrow> float list) \<Rightarrow> Model \<Rightarrow> ModelAnimation \<Rightarrow> int \<Rightarrow> int
     \<Rightarrow> Anim4dcVertexKeyframe \<Rightarrow> bool" where
  "sample_of upd model skelAnim V frame kf \<longleftrightarrow>
     timestamp kf = fdiv (float_of_int frame) (Finite 20) \<and>
     vertices kf = Some (take (nat (V * 3)) (upd model skelAnim frame)) \<and>
     kf_vertexCount kf = V"

definition sampled ::
  "(Model \<Rightarrow> ModelAnimation \<Rightarrow> int \<Rightarrow> float list) \<Rightarrow> Model \<Rightarrow> ModelAnimation \<Rightarrow> int
     \<Rightarrow> Anim4dcVertexAnimation \<Rightarrow> int \<Rightarrow> bool" where
  "sampled upd model skelAnim V clip j \<longleftrightarrow>
     keyframeCount clip = min 20 j \<and> length (keyframes clip) = 20 \<and>
     (\<forall>k. 0 \<le> k \<and> k < min 20 j \<longrightarrow>
        sample_of upd model skelAnim V (k * keyframeStep skelAnim) (keyframes clip ! nat k))"

definition frames_below :: "ModelAnimation \<Rightarrow> int" where
  "frames_below skelAnim =
     max 0 ((frameCount skelAnim + keyframeStep skelAnim - 1) div keyframeStep skelAnim)"

definition baked_clip ::
  "(Model \<Rightarrow> ModelAnimation \<Rightarrow> int \<Rightarrow> float list) \<Rightarrow> Model \<Rightarrow> ModelAnimation \<Rightarrow> int
     \<Rightarrow> Anim4dcVertexAnimation \<Rightarrow> bool" where
  "baked_clip upd model skelAnim V clip \<longleftrightarrow>
     sampled upd model skelAnim V clip (frames_below skelAnim) \<and>
     duration clip = fdiv (float_of_int (frameCount skelAnim)) (Finite 20)"

definition clip_keyframes :: "ModelAnimation \<Rightarrow> nat" where
  "clip_keyframes skelAnim = nat (min 20 (frames_below skelAnim))"

definition keyframe_allocations :: "ModelAnimation list \<Rightarrow> int \<Rightarrow> nat" where
  "keyframe_allocations anims n = sum_list (map clip_keyframes (take (nat n) anims))"

section \<open>The example states are reached\<close>

lemma ex_fresh_init: "Anim4dcInit = (True, ex_fresh, zero_stats)"
  by (simp add: Anim4dcInit_def ex_fresh_def)

lemma ex_fresh_arrays: "arrays_ok ex_fresh"
  by code_simp

lemma ex_baked_reached:
  "Anim4dcBakeVertexAnimations ex_heap ex_upd (snd Anim4dcInit) ex_model [ex_anim 8, ex_anim 8] 2
     = Some (True, ex_baked, zero_stats)"
  by code_simp

lemma ex_playing_reached: "Anim4dcUpdateAnimation ex_baked (Finite (1 / 8)) = ex_playing"
  by code_simp

lemma ex_unbuffered_reached:
  "map_option (\<lambda>r. Anim4dcSetAnimation (fst (snd r)) 0)
     (Anim4dcBakeVertexAnimations ex_heap_short ex_upd (snd Anim4dcInit) ex_model
        [ex_anim 8, ex_anim 8] 2)
     = Some (True, ex_unbuffered)"
  by code_simp

lemma ex_baked3_reached:
  "Anim4dcBakeVertexAnimations ex_heap ex_upd (snd Anim4dcInit) ex_model [ex_anim 12] 1
     = Some (True, ex_baked3, zero_stats)"
  by code_simp

lemma ex_wide_reached:
  "Anim4dcBakeVertexAnimations ex_heap ex_wide_upd (snd Anim4dcInit) ex_wide_model
     [ex_anim 8, ex_anim 8] 2
     = Some (True, ex_wide, zero_stats\<lparr>memoryUsageKB := 5\<rparr>)"
  by code_simp

section \<open>Playback without an interpolation buffer\<close>

text \<open>
  C9. In every state whose interpolation buffer is unallocated, whatever clip is selected
  and however many keyframes it has, \<^verbatim>\<open>Anim4dcUpdateAnimation\<close> returns the state as it
  was, the playback clock included, and \<^verbatim>\<open>Anim4dcGetInterpolatedVertices\<close> gives the null
  buffer.
\<close>

theorem update_animation_without_buffer:
  assumes "interpolationBuffer s = None"
  shows "Anim4dcUpdateAnimation s deltaTime = s \<and>
         Anim4dcGetInterpolatedVertices (Anim4dcUpdateAnimation s deltaTime) = None"
  using assms by (simp add: Anim4dcUpdateAnimation_def Anim4dcGetInterpolatedVertices_def Let_def)

text \<open>
  The theorem at the state reached by a bake whose last allocation failed, with clip 0 (two
  keyframes) selected afterwards.
\<close>

theorem update_animation_without_buffer_witness:
  "interpolationBuffer ex_unbuffered = None \<and>
   initialized ex_unbuffered \<and> currentAnimation ex_unbuffered = 0 \<and>
   keyframeCount (animations ex_unbuffered ! 0) = 2 \<and>
   Anim4dcUpdateAnimation ex_unbuffered (Finite 1) = ex_unbuffered \<and>
   Anim4dcGetInterpolatedVertices (Anim4dcUpdateAnimation ex_unbuffered (Finite 1)) = None"
proof -
  have h: "interpolationBuffer ex_unbuffered = None"
    by (simp add: ex_unbuffered_def)
  have "initialized ex_unbuffered" "currentAnimation ex_unbuffered = 0"
       "keyframeCount (animations ex_unbuffered ! 0) = 2"
    by (simp_all add: ex_unbuffered_def ex_baked_def ex_clip_def)
  with h update_animation_without_buffer [OF h, of "Finite 1"] show ?thesis
    by (simp add: Anim4dcGetInterpolatedVertices_def)
qed

section \<open>Clip selection\<close>

lemma set_by_name_from_none:
  "\<forall>j. i \<le> j \<and> j < animationCount s \<longrightarrow> name (animations s ! nat j) \<noteq> nm
     \<Longrightarrow> set_by_name_from s nm i = (False, s)"
proof (induction s nm i rule: set_by_name_from.induct)
  case (1 s nm i)
  show ?case
  proof (cases "i < animationCount s")
    case True
    with "1.prems" have ne: "name (animations s ! nat i) \<noteq> nm"
      by simp
    from "1.prems" have "\<forall>j. i + 1 \<le> j \<and> j < animationCount s \<longrightarrow> name (animations s ! nat j) \<noteq> nm"
      by simp
    with "1.IH" [OF True ne] True ne show ?thesis
      by (subst set_by_name_from.simps) simp
  next
    case False
    then show ?thesis
      by (subst set_by_name_from.simps) simp
  qed
qed

lemma set_by_name_from_first:
  "\<lbrakk>i \<le> k; k < animationCount s; name (animations s ! nat k) = nm;
    \<forall>j. i \<le> j \<and> j < k \<longrightarrow> name (animations s ! nat j) \<noteq> nm\<rbrakk>
     \<Longrightarrow> set_by_name_from s nm i = Anim4dcSetAnimation s k"
proof (induction s nm i rule: set_by_name_from.induct)
  case (1 s nm i)
  show ?case
  proof (cases "i = k")
    case True
    with "1.prems" show ?thesis
      by (subst set_by_name_from.simps) simp
  next
    case False
    with "1.prems" have lt: "i < k" and ne: "name (animations s ! nat i) \<noteq> nm"
      by simp_all
    from lt "1.prems" have inb: "i < animationCount s"
      by simp
    from "1.prems" lt have "\<forall>j. i + 1 \<le> j \<and> j < k \<longrightarrow> name (animations s ! nat j) \<noteq> nm"
      by simp
    with "1.IH" [OF inb ne] "1.prems" lt have "set_by_name_from s nm (i + 1) = Anim4dcSetAnimation s k"
      by simp
    with inb ne show ?thesis
      by (subst set_by_name_from.simps) simp
  qed
qed

lemma set_by_name_from_true:
  "fst (set_by_name_from s nm i) \<Longrightarrow>
     \<exists>k. i \<le> k \<and> k < animationCount s \<and> name (animations s ! nat k) = nm \<and>
         (\<forall>j. i \<le> j \<and> j < k \<longrightarrow> name (animations s ! nat j) \<noteq> nm)"
proof (induction s nm i rule: set_by_name_from.induct)
  case (1 s nm i)
  note eq = set_by_name_from.simps [of s nm i]
  show ?case
  proof (cases "i < animationCount s")
    case False
    with "1.prems" show ?thesis
      by (simp add: eq)
  next
    case True
    show ?thesis
    proof (cases "name (animations s ! nat i) = nm")
      case eq': True
      have "name (animations s ! nat j) \<noteq> nm" if "i \<le> j \<and> j < i" for j
        using that by linarith
      with True eq' show ?thesis
        by blast
    next
      case ne: False
      with True "1.prems" have "fst (set_by_name_from s nm (i + 1))"
        by (simp add: eq)
      from "1.IH" [OF True ne this] obtain k where k: "i + 1 \<le> k" "k < animationCount s"
        "name (animations s ! nat k) = nm"
        "\<forall>j. i + 1 \<le> j \<and> j < k \<longrightarrow> name (animations s ! nat j) \<noteq> nm"
        by blast
      have "name (animations s ! nat j) \<noteq> nm" if j: "i \<le> j \<and> j < k" for j
      proof (cases "j = i")
        case True
        with ne show ?thesis by simp
      next
        case False
        with j k(4) show ?thesis by simp
      qed
      with k show ?thesis
        by (intro exI [of _ k]) simp
    qed
  qed
qed

text \<open>
  C7. \<^verbatim>\<open>Anim4dcSetAnimation\<close> with an index outside \<open>[0, animationCount)\<close> and
  \<^verbatim>\<open>Anim4dcSetAnimationByName\<close> with a name that no baked clip carries (or with a null
  name) return false and leave the whole state, so the current clip and the clock, as it
  was. In an initialised system an index in range, and a name that some clip carries, are
  accepted. Whenever one of the two returns true, the current clip is the index given,
  respectively the first clip with that name, and the clock is 0.
\<close>

theorem select_clip:
  "(i < 0 \<or> animationCount s \<le> i \<longrightarrow> Anim4dcSetAnimation s i = (False, s)) \<and>
   Anim4dcSetAnimationByName s None = (False, s) \<and>
   ((\<forall>j. 0 \<le> j \<and> j < animationCount s \<longrightarrow> name (animations s ! nat j) \<noteq> nm) \<longrightarrow>
      Anim4dcSetAnimationByName s (Some nm) = (False, s)) \<and>
   (initialized s \<and> 0 \<le> i \<and> i < animationCount s \<longrightarrow>
      Anim4dcSetAnimation s i = (True, s\<lparr>currentAnimation := i, currentTime := Finite 0\<rparr>)) \<and>
   (initialized s \<and> first_named s nm k \<longrightarrow>
      Anim4dcSetAnimationByName s (Some nm) =
        (True, s\<lparr>currentAnimation := k, currentTime := Finite 0\<rparr>)) \<and>
   (fst (Anim4dcSetAnimation s i) \<longrightarrow>
      snd (Anim4dcSetAnimation s i) = s\<lparr>currentAnimation := i, currentTime := Finite 0\<rparr>) \<and>
   (fst (Anim4dcSetAnimationByName s (Some nm)) \<longrightarrow>
      (\<exists>k. first_named s nm k \<and>
           snd (Anim4dcSetAnimationByName s (Some nm)) =
             s\<lparr>currentAnimation := k, currentTime := Finite 0\<rparr>))"
proof (intro conjI impI)
  assume "i < 0 \<or> animationCount s \<le> i"
  then show "Anim4dcSetAnimation s i = (False, s)"
    by (auto simp: Anim4dcSetAnimation_def)
next
  show "Anim4dcSetAnimationByName s None = (False, s)"
    by (simp add: Anim4dcSetAnimationByName_def)
next
  assume "\<forall>j. 0 \<le> j \<and> j < animationCount s \<longrightarrow> name (animations s ! nat j) \<noteq> nm"
  then show "Anim4dcSetAnimationByName s (Some nm) = (False, s)"
    by (simp add: Anim4dcSetAnimationByName_def set_by_name_from_none)
next
  assume "initialized s \<and> 0 \<le> i \<and> i < animationCount s"
  then show "Anim4dcSetAnimation s i = (True, s\<lparr>currentAnimation := i, currentTime := Finite 0\<rparr>)"
    by (simp add: Anim4dcSetAnimation_def)
next
  assume a: "initialized s \<and> first_named s nm k"
  then have "set_by_name_from s nm 0 = Anim4dcSetAnimation s k"
    by (intro set_by_name_from_first) (simp_all add: first_named_def)
  with a show "Anim4dcSetAnimationByName s (Some nm) =
        (True, s\<lparr>currentAnimation := k, currentTime := Finite 0\<rparr>)"
    by (simp add: Anim4dcSetAnimationByName_def Anim4dcSetAnimation_def first_named_def)
next
  assume "fst (Anim4dcSetAnimation s i)"
  then show "snd (Anim4dcSetAnimation s i) = s\<lparr>currentAnimation := i, currentTime := Finite 0\<rparr>"
    by (simp add: Anim4dcSetAnimation_def split: if_splits)
next
  assume t: "fst (Anim4dcSetAnimationByName s (Some nm))"
  then have ini: "initialized s" and f: "fst (set_by_name_from s nm 0)"
    by (simp_all add: Anim4dcSetAnimationByName_def split: if_splits)
  from set_by_name_from_true [OF f] obtain k where k: "first_named s nm k"
    by (auto simp: first_named_def)
  then have "set_by_name_from s nm 0 = Anim4dcSetAnimation s k"
    by (intro set_by_name_from_first) (simp_all add: first_named_def)
  with ini k have "snd (Anim4dcSetAnimationByName s (Some nm)) =
             s\<lparr>currentAnimation := k, currentTime := Finite 0\<rparr>"
    by (simp add: Anim4dcSetAnimationByName_def Anim4dcSetAnimation_def first_named_def)
  with k show "\<exists>k. first_named s nm k \<and>
           snd (Anim4dcSetAnimationByName s (Some nm)) =
             s\<lparr>currentAnimation := k, currentTime := Finite 0\<rparr>"
    by blast
qed

text \<open>
  The theorem in the playing example, whose clock stands at an eighth of a second in clip 0:
  index 5 and the name Jump are refused, index 1 and the name Walk select clip 1.
\<close>

theorem select_clip_witness:
  "currentAnimation ex_playing = 0 \<and> currentTime ex_playing = Finite (1 / 8) \<and>
   Anim4dcSetAnimation ex_playing 5 = (False, ex_playing) \<and>
   Anim4dcSetAnimationByName ex_playing (Some ''Jump'') = (False, ex_playing) \<and>
   Anim4dcSetAnimation ex_playing 1 =
     (True, ex_playing\<lparr>currentAnimation := 1, currentTime := Finite 0\<rparr>) \<and>
   Anim4dcSetAnimationByName ex_playing (Some ''Walk'') =
     (True, ex_playing\<lparr>currentAnimation := 1, currentTime := Finite 0\<rparr>)"
proof -
  have c: "animationCount ex_playing = 2" and i: "initialized ex_playing"
    and n0: "name (animations ex_playing ! 0) = ''Survey''"
    and n1: "name (animations ex_playing ! 1) = ''Walk''"
    and t: "currentAnimation ex_playing = 0" "currentTime ex_playing = Finite (1 / 8)"
    by (simp_all add: ex_playing_def ex_baked_def ex_clip_def)
  have none: "\<forall>j. 0 \<le> j \<and> j < animationCount ex_playing \<longrightarrow>
                name (animations ex_playing ! nat j) \<noteq> ''Jump''"
  proof (intro allI impI)
    fix j :: int
    assume "0 \<le> j \<and> j < animationCount ex_playing"
    then have "j = 0 \<or> j = 1"
      using c by linarith
    then show "name (animations ex_playing ! nat j) \<noteq> ''Jump''"
      using n0 n1 by auto
  qed
  have "name (animations ex_playing ! nat j) \<noteq> ''Walk''" if "0 \<le> j \<and> j < 1" for j :: int
  proof -
    from that have "j = 0"
      by linarith
    then show ?thesis
      using n0 by simp
  qed
  then have first: "first_named ex_playing ''Walk'' 1"
    using n1 by (simp add: first_named_def c)
  show ?thesis
    using select_clip [of 5 ex_playing "''Jump''" 1] select_clip [of 1 ex_playing "''Walk''" 1]
      none first c i t
    by simp
qed

section \<open>Advancing the clock\<close>

lemma round32_examples:
  "round32 (1 / 8) = Finite (1 / 8)"
  "round32 (9 / 8) = Finite (9 / 8)"
  "round32 (1 / 4) = Finite (1 / 4)"
  by code_simp+

text \<open>
  C4, as the code has it. In an initialised system with a selected clip of at least two
  keyframes and an allocated interpolation buffer, \<^verbatim>\<open>Anim4dcUpdateAnimation\<close> sets the
  clock to \<open>clock + deltaTime\<close> (a binary32 addition), and to exactly 0 when that sum is
  greater than or equal to the duration of the clip: nothing of the sum is carried over,
  however large \<open>deltaTime\<close> is.
\<close>

theorem advance_clock:
  assumes "initialized s" "0 \<le> currentAnimation s" "currentAnimation s < animationCount s"
    and "2 \<le> keyframeCount (animations s ! nat (currentAnimation s))"
    and "interpolationBuffer s \<noteq> None"
  shows "currentTime (Anim4dcUpdateAnimation s deltaTime) =
           (if fge (fadd (currentTime s) deltaTime) (duration (animations s ! nat (currentAnimation s)))
            then Finite 0 else fadd (currentTime s) deltaTime)"
proof -
  from assms(5) obtain buf where "interpolationBuffer s = Some buf"
    by blast
  with assms(1-4) show ?thesis
    by (simp add: Anim4dcUpdateAnimation_def advance_time_def Let_def)
qed

text \<open>
  Two steps of the example: an eighth of a second from 0 stays below the duration of 0.4
  seconds; a whole second more is over two durations and resets the clock to 0.
\<close>

theorem advance_clock_witness:
  "initialized ex_baked \<and> 0 \<le> currentAnimation ex_baked \<and>
   currentAnimation ex_baked < animationCount ex_baked \<and>
   2 \<le> keyframeCount (animations ex_baked ! nat (currentAnimation ex_baked)) \<and>
   interpolationBuffer ex_baked \<noteq> None \<and>
   currentTime (Anim4dcUpdateAnimation ex_baked (Finite (1 / 8))) = Finite (1 / 8) \<and>
   currentTime ex_playing = Finite (1 / 8) \<and>
   currentTime (Anim4dcUpdateAnimation ex_playing (Finite 1)) = Finite 0"
proof -
  have b: "initialized ex_baked" "0 \<le> currentAnimation ex_baked"
    "currentAnimation ex_baked < animationCount ex_baked"
    "2 \<le> keyframeCount (animations ex_baked ! nat (currentAnimation ex_baked))"
    "interpolationBuffer ex_baked \<noteq> None"
    by (simp_all add: ex_baked_def ex_clip_def)
  have p: "initialized ex_playing" "0 \<le> currentAnimation ex_playing"
    "currentAnimation ex_playing < animationCount ex_playing"
    "2 \<le> keyframeCount (animations ex_playing ! nat (currentAnimation ex_playing))"
    "interpolationBuffer ex_playing \<noteq> None"
    by (simp_all add: ex_playing_def ex_baked_def ex_clip_def)
  have v: "currentTime ex_baked = Finite 0" "currentTime ex_playing = Finite (1 / 8)"
    "duration (animations ex_baked ! nat (currentAnimation ex_baked)) = Finite (13421773 / 33554432)"
    "duration (animations ex_playing ! nat (currentAnimation ex_playing)) = Finite (13421773 / 33554432)"
    by (simp_all add: ex_playing_def ex_baked_def ex_clip_def)
  show ?thesis
    using b advance_clock [OF b, of "Finite (1 / 8)"] advance_clock [OF p, of "Finite 1"]
    by (simp add: v round32_examples fge_def)
qed

text \<open>
  Without the interpolation buffer the clock does not move, although the system is
  initialised and the selected clip has two keyframes: C4 as stated fails in the state
  \<open>ex_unbuffered\<close>, which \<open>ex_unbuffered_reached\<close> shows to be reachable.
\<close>

theorem advance_clock_counterexample:
  "initialized ex_unbuffered \<and> 0 \<le> currentAnimation ex_unbuffered \<and>
   currentAnimation ex_unbuffered < animationCount ex_unbuffered \<and>
   2 \<le> keyframeCount (animations ex_unbuffered ! nat (currentAnimation ex_unbuffered)) \<and>
   \<not> fge (fadd (currentTime ex_unbuffered) (Finite (1 / 8)))
         (duration (animations ex_unbuffered ! nat (currentAnimation ex_unbuffered))) \<and>
   currentTime (Anim4dcUpdateAnimation ex_unbuffered (Finite (1 / 8)))
     \<noteq> fadd (currentTime ex_unbuffered) (Finite (1 / 8))"
  by code_simp

section \<open>Keyframe bracketing and the interpolation factor\<close>

lemma flt_fle_not_fle: "flt a b \<Longrightarrow> fle b c \<Longrightarrow> \<not> fle c a"
  by (cases a; cases b; cases c) simp_all

lemma clamp01_range: "clamp01 t \<noteq> NaN \<Longrightarrow> fle (Finite 0) (clamp01 t) \<and> fle (clamp01 t) (Finite 1)"
  by (cases t) (simp_all add: clamp01_def fgt_def)

lemma find_keyframes_first:
  "\<lbrakk>0 \<le> j; j \<le> i; brackets anim clock i; \<forall>k. j \<le> k \<and> k < i \<longrightarrow> \<not> brackets anim clock k\<rbrakk>
     \<Longrightarrow> find_keyframes anim clock j = (i, i + 1)"
proof (induction anim clock j rule: find_keyframes.induct)
  case (1 anim clock j)
  note eq = find_keyframes.simps [of anim clock j]
  show ?case
  proof (cases "j = i")
    case True
    with "1.prems" show ?thesis
      by (simp add: find_keyframes.simps [of anim clock i] brackets_def ts_def fge_def)
  next
    case False
    with "1.prems" have lt: "j < i"
      by simp
    with "1.prems" have inb: "j < keyframeCount anim - 1"
      by (simp add: brackets_def)
    from "1.prems" lt have "\<not> brackets anim clock j"
      by simp
    with "1.prems" inb have nb: "\<not> (fge clock (timestamp (keyframes anim ! nat j)) \<and>
                    flt clock (timestamp (keyframes anim ! nat (j + 1))))"
      by (simp add: brackets_def ts_def fge_def)
    from "1.prems" lt have "\<forall>k. j + 1 \<le> k \<and> k < i \<longrightarrow> \<not> brackets anim clock k"
      by simp
    with "1.IH" [OF inb nb] "1.prems" lt have "find_keyframes anim clock (j + 1) = (i, i + 1)"
      by simp
    with inb nb show ?thesis
      by (auto simp: eq)
  qed
qed

lemma bracket_last:
  "fge clock (ts anim (keyframeCount anim - 1)) \<Longrightarrow> bracket anim clock = (keyframeCount anim - 1, 0)"
  by (simp add: bracket_def ts_def Let_def)

lemma bracket_first:
  assumes "nondecreasing anim" "first_bracket anim clock i"
  shows "bracket anim clock = (i, i + 1)"
proof -
  from assms(2) have b: "brackets anim clock i"
    by (simp add: first_bracket_def)
  then have "fle (ts anim (i + 1)) (ts anim (keyframeCount anim - 1))"
    using assms(1) by (simp add: nondecreasing_def brackets_def)
  with b have "\<not> fge clock (ts anim (keyframeCount anim - 1))"
    by (auto simp: brackets_def fge_def dest: flt_fle_not_fle)
  moreover from assms(2) b have "find_keyframes anim clock 0 = (i, i + 1)"
    by (intro find_keyframes_first) (simp_all add: first_bracket_def brackets_def)
  ultimately show ?thesis
    by (simp add: bracket_def ts_def Let_def)
qed

lemma factor_last:
  "interpolation_factor anim clock (keyframeCount anim - 1, 0)
     = clamp01 (ratio clock (ts anim (keyframeCount anim - 1)) (duration anim))"
  by (simp add: interpolation_factor_def ratio_def ts_def Let_def)

lemma factor_next:
  "0 \<le> i \<Longrightarrow> interpolation_factor anim clock (i, i + 1)
     = clamp01 (ratio clock (ts anim i) (ts anim (i + 1)))"
  by (simp add: interpolation_factor_def ratio_def ts_def Let_def)

lemma ex_clip_nondecreasing: "nondecreasing (ex_clip nm)"
proof -
  have "fle (ts (ex_clip nm) i) (ts (ex_clip nm) j)" if "0 \<le> i \<and> i \<le> j \<and> j < 2" for i j :: int
  proof -
    from that have "(i = 0 \<and> j = 0) \<or> (i = 0 \<and> j = 1) \<or> (i = 1 \<and> j = 1)"
      by linarith
    then show ?thesis
      by (auto simp: ts_def ex_clip_def ex_keyframe_def)
  qed
  then show ?thesis
    by (simp add: nondecreasing_def ex_clip_def)
qed

lemma ex_clip3_increasing: "increasing ex_clip3"
proof -
  have "flt (ts ex_clip3 i) (ts ex_clip3 j)" if "0 \<le> i \<and> i < j \<and> j < 3" for i j :: int
  proof -
    from that have "(i = 0 \<and> j = 1) \<or> (i = 0 \<and> j = 2) \<or> (i = 1 \<and> j = 2)"
      by linarith
    then show ?thesis
      by (auto simp: ts_def ex_clip3_def ex_keyframe_def)
  qed
  then show ?thesis
    by (simp add: increasing_def ex_clip3_def)
qed

text \<open>
  C3, as the code has it. In an initialised system with an allocated interpolation buffer
  and a selected clip \<open>anim\<close> of at least two keyframes with non-decreasing timestamps,
  let \<open>clock\<close> be the clock after the step. \<^verbatim>\<open>Anim4dcUpdateAnimation\<close> interpolates, into
  the buffer, between two keyframes \<open>cur\<close> and \<open>nxt\<close> with a factor \<open>clamp01 t\<close>, where:
  if \<open>clock\<close> has reached the timestamp of the last keyframe, the pair is \<open>(last, 0)\<close> and
  \<open>t = (clock - t_last) / (duration - t_last)\<close>; if \<open>(i, i + 1)\<close> is the first pair with
  \<open>t_i \<le> clock < t_(i+1)\<close>, the pair is \<open>(i, i + 1)\<close> and
  \<open>t = (clock - t_i) / (t_(i+1) - t_i)\<close>; in both cases \<open>t\<close> is 0 when the denominator is
  zero or negative; and the factor used lies in \<open>[0, 1]\<close> (unless it is a NaN, which the
  comparisons of the clamp let through).
\<close>

theorem advance_bracket:
  assumes "initialized s" "0 \<le> currentAnimation s" "currentAnimation s < animationCount s"
    and "anim = animations s ! nat (currentAnimation s)"
    and "2 \<le> keyframeCount anim"
    and "nondecreasing anim"
    and "interpolationBuffer s = Some buf"
    and "clock = advance_time anim (currentTime s) deltaTime"
  shows "\<exists>cur nxt t.
           Anim4dcUpdateAnimation s deltaTime =
             s\<lparr>currentTime := clock,
               interpolationBuffer :=
                 Some (Anim4dcInterpolateVertices buf
                         (buffer_of (vertices (keyframes anim ! nat cur)))
                         (buffer_of (vertices (keyframes anim ! nat nxt)))
                         (clamp01 t) (vertexCount s))\<rparr> \<and>
           (fge clock (ts anim (keyframeCount anim - 1)) \<longrightarrow>
              cur = keyframeCount anim - 1 \<and> nxt = 0 \<and>
              t = ratio clock (ts anim (keyframeCount anim - 1)) (duration anim)) \<and>
           (\<forall>i. first_bracket anim clock i \<longrightarrow>
              cur = i \<and> nxt = i + 1 \<and> t = ratio clock (ts anim i) (ts anim (i + 1))) \<and>
           (clamp01 t \<noteq> NaN \<longrightarrow> fle (Finite 0) (clamp01 t) \<and> fle (clamp01 t) (Finite 1))"
proof -
  have upd: "Anim4dcUpdateAnimation s deltaTime =
      s\<lparr>currentTime := clock,
        interpolationBuffer :=
          Some (Anim4dcInterpolateVertices buf
                  (buffer_of (vertices (keyframes anim ! nat (fst (bracket anim clock)))))
                  (buffer_of (vertices (keyframes anim ! nat (snd (bracket anim clock)))))
                  (interpolation_factor anim clock (bracket anim clock)) (vertexCount s))\<rparr>"
    using assms by (simp add: Anim4dcUpdateAnimation_def Let_def buffer_of_def)
  show ?thesis
  proof (cases "fge clock (ts anim (keyframeCount anim - 1))")
    case True
    then have b: "bracket anim clock = (keyframeCount anim - 1, 0)"
      by (rule bracket_last)
    have nf: "\<not> first_bracket anim clock i" for i
    proof
      assume "first_bracket anim clock i"
      with assms(6) have "bracket anim clock = (i, i + 1)"
        by (rule bracket_first)
      moreover assume "first_bracket anim clock i"
      then have "0 \<le> i" by (simp add: first_bracket_def brackets_def)
      ultimately show False using b by simp
    qed
    show ?thesis
      apply (rule exI [of _ "keyframeCount anim - 1"])
      apply (rule exI [of _ 0])
      apply (rule exI [of _ "ratio clock (ts anim (keyframeCount anim - 1)) (duration anim)"])
      using upd b nf clamp01_range by (simp add: factor_last)
  next
    case False
    show ?thesis
    proof (cases "\<exists>i. first_bracket anim clock i")
      case ex: True
      then obtain i where i: "first_bracket anim clock i" ..
      with assms(6) have b: "bracket anim clock = (i, i + 1)"
        by (rule bracket_first)
      from i have i0: "0 \<le> i"
        by (simp add: first_bracket_def brackets_def)
      have uniq: "i' = i" if "first_bracket anim clock i'" for i'
        using bracket_first [OF assms(6) that] b by simp
      show ?thesis
        apply (rule exI [of _ i])
        apply (rule exI [of _ "i + 1"])
        apply (rule exI [of _ "ratio clock (ts anim i) (ts anim (i + 1))"])
        using upd b False uniq clamp01_range i0 by (auto simp: factor_next)
    next
      case nex: False
      obtain t where "interpolation_factor anim clock (bracket anim clock) = clamp01 t"
        by (simp add: interpolation_factor_def Let_def)
      with upd False nex clamp01_range show ?thesis
        by (intro exI [of _ "fst (bracket anim clock)"] exI [of _ "snd (bracket anim clock)"]
              exI [of _ t]) simp
    qed
  qed
qed

text \<open>
  In the example, a step to an eighth of a second falls into the first pair, and a step to
  a quarter of a second is past the last keyframe (at 0.2 seconds) and closes the loop.
\<close>

theorem advance_bracket_witness:
  "nondecreasing (ex_clip ''Survey'') \<and>
   first_bracket (ex_clip ''Survey'') (Finite (1 / 8)) 0 \<and>
   (\<exists>t. Anim4dcUpdateAnimation ex_baked (Finite (1 / 8)) =
          ex_baked\<lparr>currentTime := Finite (1 / 8),
            interpolationBuffer :=
              Some (Anim4dcInterpolateVertices [Finite 0, Finite 0, Finite 0]
                      [Finite 0, Finite 0, Finite 0] [Finite 4, Finite 0, Finite 0]
                      (clamp01 t) 1)\<rparr> \<and>
        t = ratio (Finite (1 / 8)) (Finite 0) (Finite (13421773 / 67108864))) \<and>
   fge (Finite (1 / 4)) (ts (ex_clip ''Survey'') 1) \<and>
   (\<exists>t. Anim4dcUpdateAnimation ex_baked (Finite (1 / 4)) =
          ex_baked\<lparr>currentTime := Finite (1 / 4),
            interpolationBuffer :=
              Some (Anim4dcInterpolateVertices [Finite 0, Finite 0, Finite 0]
                      [Finite 4, Finite 0, Finite 0] [Finite 0, Finite 0, Finite 0]
                      (clamp01 t) 1)\<rparr> \<and>
        t = ratio (Finite (1 / 4)) (Finite (13421773 / 67108864)) (Finite (13421773 / 33554432)))"
proof -
  let ?a = "ex_clip ''Survey''"
  have b: "initialized ex_baked" "0 \<le> currentAnimation ex_baked"
    "currentAnimation ex_baked < animationCount ex_baked"
    "?a = animations ex_baked ! nat (currentAnimation ex_baked)"
    "2 \<le> keyframeCount ?a"
    by (simp_all add: ex_baked_def ex_clip_def)
  have buf: "interpolationBuffer ex_baked = Some [Finite 0, Finite 0, Finite 0]"
    by (simp add: ex_baked_def)
  have c1: "Finite (1 / 8) = advance_time ?a (currentTime ex_baked) (Finite (1 / 8))"
    and c2: "Finite (1 / 4) = advance_time ?a (currentTime ex_baked) (Finite (1 / 4))"
    by (simp_all add: advance_time_def ex_baked_def ex_clip_def round32_examples fge_def)
  have fb: "first_bracket ?a (Finite (1 / 8)) 0"
    by (simp add: first_bracket_def brackets_def ts_def ex_clip_def ex_keyframe_def)
  have last: "fge (Finite (1 / 4)) (ts ?a (keyframeCount ?a - 1))"
    by (simp add: ts_def ex_clip_def ex_keyframe_def fge_def)
  have k: "keyframeCount ?a = 2" "duration ?a = Finite (13421773 / 33554432)"
    "vertexCount ex_baked = 1"
    "ts ?a 0 = Finite 0" "ts ?a 1 = Finite (13421773 / 67108864)"
    "buffer_of (vertices (keyframes ?a ! 0)) = [Finite 0, Finite 0, Finite 0]"
    "buffer_of (vertices (keyframes ?a ! 1)) = [Finite 4, Finite 0, Finite 0]"
    by (simp_all add: ts_def ex_clip_def ex_keyframe_def ex_baked_def buffer_of_def)
  from advance_bracket [OF b ex_clip_nondecreasing buf c1] fb
  have one: "\<exists>t. Anim4dcUpdateAnimation ex_baked (Finite (1 / 8)) =
          ex_baked\<lparr>currentTime := Finite (1 / 8),
            interpolationBuffer :=
              Some (Anim4dcInterpolateVertices [Finite 0, Finite 0, Finite 0]
                      [Finite 0, Finite 0, Finite 0] [Finite 4, Finite 0, Finite 0]
                      (clamp01 t) 1)\<rparr> \<and>
        t = ratio (Finite (1 / 8)) (Finite 0) (Finite (13421773 / 67108864))"
    using k by fastforce
  from advance_bracket [OF b ex_clip_nondecreasing buf c2] last
  have two: "\<exists>t. Anim4dcUpdateAnimation ex_baked (Finite (1 / 4)) =
          ex_baked\<lparr>currentTime := Finite (1 / 4),
            interpolationBuffer :=
              Some (Anim4dcInterpolateVertices [Finite 0, Finite 0, Finite 0]
                      [Finite 4, Finite 0, Finite 0] [Finite 0, Finite 0, Finite 0]
                      (clamp01 t) 1)\<rparr> \<and>
        t = ratio (Finite (1 / 4)) (Finite (13421773 / 67108864)) (Finite (13421773 / 33554432))"
    using k by fastforce
  from one two fb last k ex_clip_nondecreasing show ?thesis
    by simp
qed

text \<open>
  Without the interpolation buffer nothing is interpolated, whatever the keyframes are: in
  the state \<open>ex_unbuffered\<close> the step returns the state as it was. And a step by a NaN
  makes the clock and the factor NaN, which the clamp lets through into the buffer.
\<close>

theorem advance_bracket_counterexample:
  "initialized ex_unbuffered \<and> currentAnimation ex_unbuffered = 0 \<and>
   animationCount ex_unbuffered = 2 \<and> keyframeCount (animations ex_unbuffered ! 0) = 2 \<and>
   fle (ts (animations ex_unbuffered ! 0) 0) (ts (animations ex_unbuffered ! 0) 1) \<and>
   Anim4dcUpdateAnimation ex_unbuffered (Finite (1 / 8)) = ex_unbuffered \<and>
   interpolationBuffer ex_unbuffered = None \<and>
   interpolation_factor (animations ex_baked ! 0) NaN (bracket (animations ex_baked ! 0) NaN) = NaN \<and>
   currentTime (Anim4dcUpdateAnimation ex_baked NaN) = NaN \<and>
   interpolationBuffer (Anim4dcUpdateAnimation ex_baked NaN) = Some [NaN, NaN, NaN]"
  by code_simp

section \<open>Rounding leaves binary32 numbers alone\<close>

text \<open>
  What \<open>round32\<close> returns is a binary32 number: rounding it again does not change it. So
  a product with \<open>1.0f\<close> returns its other factor, which is what the interpolation
  computes at \<open>t = 1\<close>.
\<close>

lemma pow2_powi: "pow2 k = 2 powi k"
  by (simp add: pow2_def power_int_def power_one_over [symmetric] inverse_eq_divide)

lemma pow2_pos: "0 < pow2 k"
  by (simp add: pow2_powi)

lemma pow2_add: "pow2 (a + b) = pow2 a * pow2 b"
  by (simp add: pow2_powi power_int_add)

lemma pow2_mono: "a \<le> b \<Longrightarrow> pow2 a \<le> pow2 b"
  by (simp add: pow2_powi power_int_increasing)

lemma pow2_less: "pow2 a < pow2 b \<Longrightarrow> a < b"
  using pow2_mono [of b a] by (cases "a < b") simp_all

lemma pow2_neg: "pow2 (- k) = 1 / pow2 k"
  by (simp add: pow2_powi power_int_minus inverse_eq_divide)

lemma pow2_nat: "0 \<le> k \<Longrightarrow> pow2 k = of_int (2 ^ nat k)"
  by (simp add: pow2_def)

lemma ilog2_bounds:
  assumes "0 < a"
  shows "pow2 (ilog2 a) \<le> a \<and> a < pow2 (ilog2 a + 1)"
proof (cases "1 \<le> a")
  case True
  define m where "m = \<lfloor>a\<rfloor>"
  from True have m: "0 < m"
    by (simp add: m_def)
  then have b1: "1 \<le> bitlen m"
    by (auto simp: bitlen_alt_def)
  from bitlen_bounds [OF m] have lo: "2 ^ nat (bitlen m - 1) \<le> m" and hi: "m < 2 ^ nat (bitlen m)"
    by simp_all
  have e: "ilog2 a = bitlen m - 1"
    using True by (simp add: ilog2_def m_def)
  from lo have "(of_int (2 ^ nat (bitlen m - 1)) :: rat) \<le> of_int m"
    by (simp only: of_int_le_iff)
  also have "\<dots> \<le> a"
    by (simp add: m_def)
  finally have 1: "pow2 (ilog2 a) \<le> a"
    using b1 by (simp add: e pow2_nat)
  from hi have "m + 1 \<le> 2 ^ nat (bitlen m)"
    by simp
  then have "(of_int (m + 1) :: rat) \<le> of_int (2 ^ nat (bitlen m))"
    by (simp only: of_int_le_iff)
  moreover have "a < of_int (m + 1)"
    unfolding m_def using floor_correct [of a] by blast
  ultimately have "a < of_int (2 ^ nat (bitlen m))"
    by simp
  then have 2: "a < pow2 (ilog2 a + 1)"
    using b1 by (simp add: e pow2_nat)
  from 1 2 show ?thesis ..
next
  case False
  define c where "c = \<lceil>1 / a\<rceil>"
  define m where "m = c - 1"
  from False assms have "1 < 1 / a"
    by simp
  then have "1 < c"
    unfolding c_def by (simp add: less_ceiling_iff)
  then have m: "0 < m"
    by (simp add: m_def)
  then have b1: "1 \<le> bitlen m"
    by (auto simp: bitlen_alt_def)
  from bitlen_bounds [OF m] have lo: "2 ^ nat (bitlen m - 1) \<le> m" and hi: "m < 2 ^ nat (bitlen m)"
    by simp_all
  have e: "ilog2 a = - bitlen m"
    using False by (simp add: ilog2_def m_def c_def)
  have "1 / a \<le> of_int c"
    by (simp add: c_def)
  also from hi have "c \<le> 2 ^ nat (bitlen m)"
    by (simp add: m_def)
  then have "(of_int c :: rat) \<le> of_int (2 ^ nat (bitlen m))"
    by (simp only: of_int_le_iff)
  finally have "1 / a \<le> 2 ^ nat (bitlen m)"
    by simp
  with assms have "1 / 2 ^ nat (bitlen m) \<le> a"
    by (simp add: field_simps)
  moreover from b1 have "pow2 (- bitlen m) = 1 / 2 ^ nat (bitlen m)"
    by (simp only: pow2_neg) (simp add: pow2_def)
  ultimately have 1: "pow2 (ilog2 a) \<le> a"
    by (simp only: e)
  from lo have "(of_int (2 ^ nat (bitlen m - 1)) :: rat) \<le> of_int m"
    by (simp only: of_int_le_iff)
  also have "(of_int m :: rat) < 1 / a"
    unfolding m_def c_def by (simp add: ceiling_correct [of "1 / a"] less_ceiling_iff [symmetric])
  finally have "2 ^ nat (bitlen m - 1) < 1 / a"
    by simp
  with assms have "a < 1 / 2 ^ nat (bitlen m - 1)"
    by (simp add: field_simps)
  moreover from b1 have "pow2 (- (bitlen m - 1)) = 1 / 2 ^ nat (bitlen m - 1)"
    by (simp only: pow2_neg) (simp add: pow2_def)
  moreover have "- bitlen m + 1 = - (bitlen m - 1)"
    by simp
  ultimately have 2: "a < pow2 (ilog2 a + 1)"
    by (simp only: e)
  from 1 2 show ?thesis ..
qed

lemma round_half_even_int: "round_half_even (of_int n) = n"
  by (simp add: round_half_even_def)

lemma round_half_even_le: "r \<le> of_int N \<Longrightarrow> round_half_even r \<le> N"
proof -
  assume r: "r \<le> of_int N"
  then have f: "\<lfloor>r\<rfloor> \<le> N"
    by (simp add: floor_le_iff)
  show ?thesis
  proof (cases "r = of_int \<lfloor>r\<rfloor>")
    case True
    then have "round_half_even r = \<lfloor>r\<rfloor>"
      by (simp add: round_half_even_def)
    with f show ?thesis
      by simp
  next
    case False
    with of_int_floor_le [of r] have "of_int \<lfloor>r\<rfloor> < r"
      by linarith
    with r have "(of_int \<lfloor>r\<rfloor> :: rat) < of_int N"
      by simp
    then have "\<lfloor>r\<rfloor> < N"
      by (simp only: of_int_less_iff)
    then show ?thesis
      by (simp add: round_half_even_def Let_def)
  qed
qed

lemma round_half_even_nonneg: "0 \<le> r \<Longrightarrow> 0 \<le> round_half_even r"
  by (simp add: round_half_even_def Let_def)

text \<open>
  A number \<open>n * 2^k\<close> with at most 24 bits in \<open>n\<close> and \<open>k\<close> not below the least exponent
  is a binary32 number, when it is in range.
\<close>

lemma round32_repr_less:
  assumes n: "0 < n" "n < 2 ^ 24" and k: "- 149 \<le> k"
    and fin: "of_int n * pow2 k < pow2 128"
  shows "round32 (of_int n * pow2 k) = Finite (of_int n * pow2 k)"
proof -
  define y :: rat where "y = of_int n * pow2 k"
  from n(1) have y: "0 < y"
    by (simp add: y_def pow2_pos)
  define k' where "k' = max (ilog2 y - 23) (- 149)"
  from n(2) have "(of_int n :: rat) < of_int (2 ^ 24)"
    by (simp only: of_int_less_iff)
  then have "(of_int n :: rat) < pow2 24"
    by (simp add: pow2_def)
  then have "y < pow2 24 * pow2 k"
    unfolding y_def using pow2_pos [of k] by (simp only: mult_strict_right_mono)
  then have "y < pow2 (24 + k)"
    by (simp only: pow2_add)
  with ilog2_bounds [OF y] have "pow2 (ilog2 y) < pow2 (24 + k)"
    by simp
  then have "ilog2 y < 24 + k"
    by (rule pow2_less)
  with k have le: "k' \<le> k"
    by (simp add: k'_def)
  have "pow2 k = pow2 (k - k') * pow2 k'"
    by (simp add: pow2_add [symmetric])
  also from le have "pow2 (k - k') = of_int (2 ^ nat (k - k'))"
    by (simp add: pow2_nat)
  finally have yk: "y = of_int (n * 2 ^ nat (k - k')) * pow2 k'"
    by (simp add: y_def)
  then have "y / pow2 k' = of_int (n * 2 ^ nat (k - k'))"
    using pow2_pos [of k'] by simp
  then have "round_half_even (y / pow2 k') = n * 2 ^ nat (k - k')"
    by (simp only: round_half_even_int)
  then have "of_int (round_half_even (y / pow2 k')) * pow2 k' = y"
    using yk by simp
  with y fin show ?thesis
    unfolding y_def [symmetric] by (simp add: round32_def Let_def k'_def [symmetric])
qed

lemma round32_repr:
  assumes n: "0 \<le> n" "n \<le> 2 ^ 24" and k: "- 149 \<le> k"
    and fin: "of_int n * pow2 k < pow2 128"
  shows "round32 (of_int n * pow2 k) = Finite (of_int n * pow2 k)"
proof -
  consider "n = 0" | "0 < n" "n < 2 ^ 24" | "n = 2 ^ 24"
    using n by linarith
  then show ?thesis
  proof cases
    case 1
    then show ?thesis
      by (simp add: round32_def)
  next
    case 2
    then show ?thesis
      using k fin by (rule round32_repr_less)
  next
    case 3
    have "pow2 (k + 1) = pow2 k * pow2 1"
      by (rule pow2_add)
    also have "pow2 1 = 2"
      by (simp add: pow2_def)
    finally have eq: "(of_int n :: rat) * pow2 k = of_int (2 ^ 23) * pow2 (k + 1)"
      by (simp add: 3)
    have "round32 (of_int (2 ^ 23) * pow2 (k + 1)) = Finite (of_int (2 ^ 23) * pow2 (k + 1))"
      using k fin unfolding eq by (intro round32_repr_less) simp_all
    then show ?thesis
      by (simp only: eq)
  qed
qed

lemma round32_neg: "round32 (- x) = fneg (round32 x)"
  by (simp add: round32_def Let_def)

lemma round32_idem:
  assumes "round32 x = Finite y"
  shows "round32 y = Finite y"
proof (cases "x = 0")
  case True
  with assms show ?thesis
    by (simp add: round32_def)
next
  case False
  define a where "a = \<bar>x\<bar>"
  define k where "k = max (ilog2 a - 23) (- 149)"
  define n where "n = round_half_even (a / pow2 k)"
  from False have a: "0 < a"
    by (simp add: a_def)
  have r: "round32 x = (if pow2 128 \<le> of_int n * pow2 k then (if 0 < x then PInf else NInf)
                        else Finite (if 0 < x then of_int n * pow2 k else - (of_int n * pow2 k)))"
    using False by (simp add: round32_def Let_def a_def k_def n_def)
  with assms have fin: "of_int n * pow2 k < pow2 128"
    and y: "y = (if 0 < x then of_int n * pow2 k else - (of_int n * pow2 k))"
    by (simp_all split: if_splits)
  from a have n0: "0 \<le> n"
    unfolding n_def using pow2_pos [of k] by (intro round_half_even_nonneg) simp
  have "pow2 (ilog2 a - 23) \<le> pow2 k"
    by (rule pow2_mono) (simp add: k_def)
  with a pow2_pos [of "ilog2 a - 23"] have "a / pow2 k \<le> a / pow2 (ilog2 a - 23)"
    by (simp add: frac_le)
  also from ilog2_bounds [OF a] have "a < pow2 (ilog2 a + 1)"
    by simp
  then have "a / pow2 (ilog2 a - 23) < pow2 (ilog2 a + 1) / pow2 (ilog2 a - 23)"
    using pow2_pos [of "ilog2 a - 23"] by (simp only: divide_strict_right_mono)
  also have "pow2 (ilog2 a + 1) = pow2 24 * pow2 (ilog2 a - 23)"
    using pow2_add [of 24 "ilog2 a - 23"] by (simp add: algebra_simps)
  also have "pow2 24 * pow2 (ilog2 a - 23) / pow2 (ilog2 a - 23) = of_int (2 ^ 24)"
    using pow2_pos [of "ilog2 a - 23"] by (simp add: pow2_def)
  finally have "n \<le> 2 ^ 24"
    unfolding n_def by (intro round_half_even_le) simp
  with n0 have "round32 (of_int n * pow2 k) = Finite (of_int n * pow2 k)"
    using fin by (intro round32_repr) (simp_all add: k_def)
  then show ?thesis
    by (simp add: y round32_neg)
qed

lemma fmul_one_round32: "fmul (round32 x) (Finite 1) = round32 x"
proof (cases "round32 x")
  case (Finite y)
  with round32_idem [of x y] show ?thesis
    by simp
qed simp_all

lemma fmul_one_fsub: "fmul (fsub v2 v1) (Finite 1) = fsub v2 v1"
  by (cases v2; cases v1) (simp_all add: fsub_def fmul_one_round32)

section \<open>Interpolation at the ends of the interval\<close>

lemma interpolate_from_length:
  "length (interpolate_from i out v1 v2 t vcount) = length out"
proof (induction i out v1 v2 t vcount rule: interpolate_from.induct)
  case (1 i out v1 v2 t vcount)
  then show ?case
    by (subst interpolate_from.simps) simp
qed

lemma interpolate_from_before:
  "\<lbrakk>0 \<le> j; j < i\<rbrakk> \<Longrightarrow> interpolate_from i out v1 v2 t vcount ! nat j = out ! nat j"
proof (induction i out v1 v2 t vcount rule: interpolate_from.induct)
  case (1 i out v1 v2 t vcount)
  show ?case
  proof (cases "i < vcount * 3")
    case True
    from "1.prems" have "nat j \<noteq> nat i"
      by simp
    with "1.IH" [OF True] "1.prems" True show ?thesis
      by (subst interpolate_from.simps) simp
  next
    case False
    then show ?thesis
      by (subst interpolate_from.simps) simp
  qed
qed

lemma interpolate_from_nth:
  "\<lbrakk>0 \<le> i; i \<le> j; j < vcount * 3; nat (vcount * 3) \<le> length out\<rbrakk>
     \<Longrightarrow> interpolate_from i out v1 v2 t vcount ! nat j = lerp (v1 ! nat j) (v2 ! nat j) t"
proof (induction i out v1 v2 t vcount rule: interpolate_from.induct)
  case (1 i out v1 v2 t vcount)
  from "1.prems" have inb: "i < vcount * 3"
    by simp
  note eq = interpolate_from.simps [of i out v1 v2 t vcount]
  show ?case
  proof (cases "i = j")
    case True
    from "1.prems" have "nat j < length out"
      by linarith
    with True "1.prems" inb interpolate_from_before [of j "j + 1"] show ?thesis
      by (simp add: interpolate_from.simps [of j out v1 v2 t vcount])
  next
    case False
    with "1.IH" [OF inb] "1.prems" inb show ?thesis
      by (simp add: eq)
  qed
qed

lemma lerp_zero:
  "\<lbrakk>is_binary32 a; is_finite (fsub (Finite b) (Finite a))\<rbrakk>
     \<Longrightarrow> lerp (Finite a) (Finite b) (Finite 0) = Finite a"
  by (cases "fsub (Finite b) (Finite a)") (simp_all add: lerp_def is_binary32_def round32_def)

lemma lerp_one: "lerp v1 v2 (Finite 1) = fadd v1 (fsub v2 v1)"
  by (simp add: lerp_def fmul_one_fsub)

lemma lerp_one_exact:
  "\<lbrakk>is_binary32 b; is_binary32 (b - a)\<rbrakk> \<Longrightarrow> lerp (Finite a) (Finite b) (Finite 1) = Finite b"
  by (simp add: lerp_def fsub_def is_binary32_def)

text \<open>
  The playback step when the clock comes to lie on the timestamp of keyframe \<open>k\<close>, in a
  clip whose timestamps increase: the search brackets \<open>k\<close> with the keyframe after it, and
  the factor is 0.
\<close>

lemma flt_imp_fle: "flt a b \<Longrightarrow> fle a b"
  by (cases a; cases b) simp_all

lemma flt_fle_refl: "flt a b \<Longrightarrow> fle a a \<and> fle b b"
  by (cases a; cases b) simp_all

lemma fle_finite_refl: "is_finite a \<Longrightarrow> fle a a"
  by (cases a) simp_all

lemma increasing_nondecreasing:
  assumes "2 \<le> keyframeCount anim" "increasing anim"
  shows "nondecreasing anim"
  unfolding nondecreasing_def
proof (intro allI impI)
  fix i j
  assume ij: "0 \<le> i \<and> i \<le> j \<and> j < keyframeCount anim"
  show "fle (ts anim i) (ts anim j)"
  proof (cases "i < j")
    case True
    with assms(2) ij have "flt (ts anim i) (ts anim j)"
      by (simp add: increasing_def)
    then show ?thesis
      by (rule flt_imp_fle)
  next
    case False
    with ij have eq: "j = i"
      by simp
    show ?thesis
    proof (cases "i = 0")
      case True
      from assms have "flt (ts anim 0) (ts anim 1)"
        by (simp add: increasing_def)
      with True eq show ?thesis
        by (simp add: flt_fle_refl)
    next
      case False
      with assms(2) ij have "flt (ts anim 0) (ts anim i)"
        by (simp add: increasing_def)
      with eq show ?thesis
        by (simp add: flt_fle_refl)
    qed
  qed
qed

lemma bracket_at_keyframe:
  assumes "2 \<le> keyframeCount anim" "increasing anim"
    and "0 \<le> k" "k < keyframeCount anim" "is_finite (ts anim k)"
  shows "bracket anim (ts anim k) = (k, next_keyframe anim k)"
proof (cases "k = keyframeCount anim - 1")
  case True
  from assms(5) have "fge (ts anim k) (ts anim (keyframeCount anim - 1))"
    unfolding True [symmetric] by (simp add: fge_def fle_finite_refl)
  then have "bracket anim (ts anim k) = (keyframeCount anim - 1, 0)"
    by (rule bracket_last)
  with True show ?thesis
    by (simp add: next_keyframe_def)
next
  case False
  with assms(4) have k: "k < keyframeCount anim - 1"
    by simp
  from assms(1,2) have nd: "nondecreasing anim"
    by (rule increasing_nondecreasing)
  from assms(2,3) k have up: "flt (ts anim k) (ts anim (k + 1))"
    by (simp add: increasing_def)
  from assms(5) have self: "fle (ts anim k) (ts anim k)"
    by (rule fle_finite_refl)
  have "\<not> brackets anim (ts anim k) j" if j: "0 \<le> j \<and> j < k" for j
  proof
    assume "brackets anim (ts anim k) j"
    then have "flt (ts anim k) (ts anim (j + 1))"
      by (simp add: brackets_def)
    moreover from nd j assms(4) have "fle (ts anim (j + 1)) (ts anim k)"
      by (simp add: nondecreasing_def)
    ultimately have "\<not> fle (ts anim k) (ts anim k)"
      by (rule flt_fle_not_fle)
    with self show False
      by simp
  qed
  with assms(3) k up self have "first_bracket anim (ts anim k) k"
    by (simp add: first_bracket_def brackets_def)
  with nd have "bracket anim (ts anim k) = (k, k + 1)"
    by (rule bracket_first)
  with False show ?thesis
    by (simp add: next_keyframe_def)
qed

lemma ratio_start: "ratio (Finite c) (Finite c) d = Finite 0"
proof -
  have z: "fsub (Finite c) (Finite c) = Finite 0"
    by (simp add: fsub_def round32_def)
  show ?thesis
    by (cases "fsub d (Finite c)") (simp_all add: ratio_def z fgt_def round32_def)
qed

lemma factor_at_keyframe:
  assumes "0 \<le> k" "is_finite (ts anim k)"
  shows "interpolation_factor anim (ts anim k) (k, next_keyframe anim k) = Finite 0"
proof -
  from assms(2) obtain c where c: "ts anim k = Finite c"
    by (cases "ts anim k") simp_all
  have zero: "clamp01 (Finite 0) = Finite 0"
    by (simp add: clamp01_def fgt_def)
  show ?thesis
  proof (cases "k = keyframeCount anim - 1")
    case True
    have "interpolation_factor anim (ts anim k) (keyframeCount anim - 1, 0)
            = clamp01 (ratio (ts anim k) (ts anim (keyframeCount anim - 1)) (duration anim))"
      by (rule factor_last)
    also have "\<dots> = Finite 0"
      unfolding True [symmetric] c by (simp only: ratio_start zero)
    finally show ?thesis
      using True by (simp add: next_keyframe_def)
  next
    case False
    have "interpolation_factor anim (ts anim k) (k, k + 1)
            = clamp01 (ratio (ts anim k) (ts anim k) (ts anim (k + 1)))"
      using assms(1) by (rule factor_next)
    also have "\<dots> = Finite 0"
      unfolding c by (simp only: ratio_start zero)
    finally show ?thesis
      using False by (simp add: next_keyframe_def)
  qed
qed

lemma update_at_keyframe:
  assumes "initialized s" "0 \<le> currentAnimation s" "currentAnimation s < animationCount s"
    and "anim = animations s ! nat (currentAnimation s)"
    and "2 \<le> keyframeCount anim" "increasing anim"
    and "0 \<le> k" "k < keyframeCount anim" "is_finite (ts anim k)"
    and "advance_time anim (currentTime s) deltaTime = ts anim k"
    and "interpolationBuffer s = Some out"
    and "vertices (keyframes anim ! nat k) = Some vertices1"
    and "vertices (keyframes anim ! nat (next_keyframe anim k)) = Some vertices2"
  shows "Anim4dcUpdateAnimation s deltaTime =
           s\<lparr>currentTime := ts anim k,
             interpolationBuffer :=
               Some (Anim4dcInterpolateVertices out vertices1 vertices2 (Finite 0) (vertexCount s))\<rparr>"
proof -
  have b: "bracket anim (ts anim k) = (k, next_keyframe anim k)"
    using assms(5-9) by (rule bracket_at_keyframe)
  have f: "interpolation_factor anim (ts anim k) (k, next_keyframe anim k) = Finite 0"
    using assms(7,9) by (rule factor_at_keyframe)
  have upd: "Anim4dcUpdateAnimation s deltaTime =
      s\<lparr>currentTime := ts anim k,
        interpolationBuffer :=
          Some (Anim4dcInterpolateVertices out
                  (buffer_of (vertices (keyframes anim ! nat (fst (bracket anim (ts anim k))))))
                  (buffer_of (vertices (keyframes anim ! nat (snd (bracket anim (ts anim k))))))
                  (interpolation_factor anim (ts anim k) (bracket anim (ts anim k)))
                  (vertexCount s))\<rparr>"
    using assms(1-5,10,11) by (simp add: Anim4dcUpdateAnimation_def Let_def buffer_of_def)
  show ?thesis
    using upd [unfolded b fst_conv snd_conv f] assms(12,13) by (simp add: buffer_of_def)
qed

text \<open>
  C8, as the code has it. \<^verbatim>\<open>Anim4dcInterpolateVertices\<close> computes
  \<open>v1 + (v2 - v1) * t\<close> in binary32 for each of the \<open>vertexCount * 3\<close> components. For a
  component \<open>j\<close> whose two values \<open>v1\<close> and \<open>v2\<close> are numbers:

  \<^item> at \<open>t = 0\<close> the value written is \<open>v1\<close>, provided \<open>v2 - v1\<close> does not overflow;

  \<^item> at \<open>t = 1\<close> the value written is \<open>v1 + (v2 - v1)\<close> with its two roundings;

  \<^item> which is \<open>v2\<close> when the difference \<open>v2 - v1\<close> is itself a binary32 number, that
    is, when the subtraction does not round;

  \<^item> and when a playback step brings the clock onto the timestamp of a keyframe \<open>k\<close>
    (the next keyframe of the pair played so far, say) in a clip whose timestamps increase,
    \<^verbatim>\<open>Anim4dcUpdateAnimation\<close> brackets \<open>k\<close> with the keyframe after it, the factor
    is 0, and the value written is that of keyframe \<open>k\<close>, under the proviso of the first
    item.

  The values are equal as numbers; the sign of a zero is not part of the model.
\<close>

theorem interpolate_endpoints:
  assumes "0 \<le> j" "j < vcount * 3"
    and "nat (vcount * 3) \<le> length out" "nat (vcount * 3) \<le> length vertices1"
        "nat (vcount * 3) \<le> length vertices2"
    and "vertices1 ! nat j = Finite a" "vertices2 ! nat j = Finite b"
  shows "(is_binary32 a \<and> is_finite (fsub (Finite b) (Finite a)) \<longrightarrow>
            Anim4dcInterpolateVertices out vertices1 vertices2 (Finite 0) vcount ! nat j
              = vertices1 ! nat j) \<and>
         Anim4dcInterpolateVertices out vertices1 vertices2 (Finite 1) vcount ! nat j
           = fadd (vertices1 ! nat j) (fsub (vertices2 ! nat j) (vertices1 ! nat j)) \<and>
         (is_binary32 b \<and> is_binary32 (b - a) \<longrightarrow>
            Anim4dcInterpolateVertices out vertices1 vertices2 (Finite 1) vcount ! nat j
              = vertices2 ! nat j) \<and>
         (\<forall>s deltaTime anim k.
            initialized s \<and> 0 \<le> currentAnimation s \<and> currentAnimation s < animationCount s \<and>
            anim = animations s ! nat (currentAnimation s) \<and>
            2 \<le> keyframeCount anim \<and> increasing anim \<and>
            0 \<le> k \<and> k < keyframeCount anim \<and> is_finite (ts anim k) \<and>
            advance_time anim (currentTime s) deltaTime = ts anim k \<and>
            interpolationBuffer s = Some out \<and> vertexCount s = vcount \<and>
            vertices (keyframes anim ! nat k) = Some vertices1 \<and>
            vertices (keyframes anim ! nat (next_keyframe anim k)) = Some vertices2 \<and>
            is_binary32 a \<and> is_finite (fsub (Finite b) (Finite a)) \<longrightarrow>
            bracket anim (ts anim k) = (k, next_keyframe anim k) \<and>
            interpolation_factor anim (ts anim k) (k, next_keyframe anim k) = Finite 0 \<and>
            currentTime (Anim4dcUpdateAnimation s deltaTime) = ts anim k \<and>
            (\<exists>res. Anim4dcGetInterpolatedVertices (Anim4dcUpdateAnimation s deltaTime) = Some res \<and>
                   res ! nat j = vertices1 ! nat j))"
proof -
  have nth: "Anim4dcInterpolateVertices out vertices1 vertices2 t vcount ! nat j
               = lerp (Finite a) (Finite b) t" for t
    using assms interpolate_from_nth [of 0 j vcount out vertices1 vertices2 t]
    by (simp add: Anim4dcInterpolateVertices_def)
  have zero: "Anim4dcInterpolateVertices out vertices1 vertices2 (Finite 0) vcount ! nat j
                = vertices1 ! nat j"
    if "is_binary32 a \<and> is_finite (fsub (Finite b) (Finite a))"
    using that assms(6) by (simp add: nth lerp_zero)
  have one: "Anim4dcInterpolateVertices out vertices1 vertices2 (Finite 1) vcount ! nat j
               = fadd (vertices1 ! nat j) (fsub (vertices2 ! nat j) (vertices1 ! nat j))"
    unfolding nth assms(6,7) by (rule lerp_one)
  have exact: "Anim4dcInterpolateVertices out vertices1 vertices2 (Finite 1) vcount ! nat j
                 = vertices2 ! nat j"
    if "is_binary32 b \<and> is_binary32 (b - a)"
    using that assms(7) by (simp add: nth lerp_one_exact)
  have step: "bracket anim (ts anim k) = (k, next_keyframe anim k) \<and>
            interpolation_factor anim (ts anim k) (k, next_keyframe anim k) = Finite 0 \<and>
            currentTime (Anim4dcUpdateAnimation s deltaTime) = ts anim k \<and>
            (\<exists>res. Anim4dcGetInterpolatedVertices (Anim4dcUpdateAnimation s deltaTime) = Some res \<and>
                   res ! nat j = vertices1 ! nat j)"
    if h: "initialized s \<and> 0 \<le> currentAnimation s \<and> currentAnimation s < animationCount s \<and>
            anim = animations s ! nat (currentAnimation s) \<and>
            2 \<le> keyframeCount anim \<and> increasing anim \<and>
            0 \<le> k \<and> k < keyframeCount anim \<and> is_finite (ts anim k) \<and>
            advance_time anim (currentTime s) deltaTime = ts anim k \<and>
            interpolationBuffer s = Some out \<and> vertexCount s = vcount \<and>
            vertices (keyframes anim ! nat k) = Some vertices1 \<and>
            vertices (keyframes anim ! nat (next_keyframe anim k)) = Some vertices2 \<and>
            is_binary32 a \<and> is_finite (fsub (Finite b) (Finite a))"
    for s deltaTime anim k
  proof -
    from h have s: "initialized s" "0 \<le> currentAnimation s"
      "currentAnimation s < animationCount s" "anim = animations s ! nat (currentAnimation s)"
      and clip: "2 \<le> keyframeCount anim" "increasing anim"
      and k: "0 \<le> k" "k < keyframeCount anim" "is_finite (ts anim k)"
      and clock: "advance_time anim (currentTime s) deltaTime = ts anim k"
      and bufs: "interpolationBuffer s = Some out"
        "vertices (keyframes anim ! nat k) = Some vertices1"
        "vertices (keyframes anim ! nat (next_keyframe anim k)) = Some vertices2"
      by blast+
    have b: "bracket anim (ts anim k) = (k, next_keyframe anim k)"
      using clip k by (rule bracket_at_keyframe)
    have f: "interpolation_factor anim (ts anim k) (k, next_keyframe anim k) = Finite 0"
      using k(1,3) by (rule factor_at_keyframe)
    have "Anim4dcUpdateAnimation s deltaTime =
           s\<lparr>currentTime := ts anim k,
             interpolationBuffer :=
               Some (Anim4dcInterpolateVertices out vertices1 vertices2 (Finite 0) (vertexCount s))\<rparr>"
      using s clip k clock bufs by (rule update_at_keyframe)
    with h zero have "currentTime (Anim4dcUpdateAnimation s deltaTime) = ts anim k \<and>
        (\<exists>res. Anim4dcGetInterpolatedVertices (Anim4dcUpdateAnimation s deltaTime) = Some res \<and>
               res ! nat j = vertices1 ! nat j)"
      by (simp add: Anim4dcGetInterpolatedVertices_def)
    with b f show ?thesis
      by simp
  qed
  from zero one exact step show ?thesis
    by blast
qed

text \<open>
  In the clip of three keyframes, whose first coordinates are 0, 4 and 8: between the
  keyframes 1 and 2 the interpolation writes 4 at \<open>t = 0\<close> and 8 at \<open>t = 1\<close>, the
  difference 4 being exact; and the step of \<open>0.2f\<close> from the clock 0, which was in the pair
  \<open>(0, 1)\<close>, puts the clock on the timestamp of keyframe 1 and writes the 4 of that keyframe.
\<close>

theorem interpolate_endpoints_witness:
  "is_binary32 4 \<and> is_finite (fsub (Finite 8) (Finite 4)) \<and>
   is_binary32 8 \<and> is_binary32 (8 - 4) \<and>
   Anim4dcInterpolateVertices [Finite 0, Finite 0, Finite 0]
     [Finite 4, Finite 0, Finite 0] [Finite 8, Finite 0, Finite 0] (Finite 0) 1 ! nat 0
     = Finite 4 \<and>
   Anim4dcInterpolateVertices [Finite 0, Finite 0, Finite 0]
     [Finite 4, Finite 0, Finite 0] [Finite 8, Finite 0, Finite 0] (Finite 1) 1 ! nat 0
     = Finite 8 \<and>
   increasing ex_clip3 \<and>
   bracket ex_clip3 (currentTime ex_baked3) = (0, 1) \<and>
   advance_time ex_clip3 (currentTime ex_baked3) (Finite (13421773 / 67108864)) = ts ex_clip3 1 \<and>
   bracket ex_clip3 (ts ex_clip3 1) = (1, 2) \<and>
   interpolation_factor ex_clip3 (ts ex_clip3 1) (1, 2) = Finite 0 \<and>
   (\<exists>res. Anim4dcGetInterpolatedVertices
            (Anim4dcUpdateAnimation ex_baked3 (Finite (13421773 / 67108864))) = Some res \<and>
          res ! nat 0 = Finite 4)"
proof -
  let ?out = "[Finite 0, Finite 0, Finite 0]"
  let ?v1 = "[Finite 4, Finite 0, Finite 0]"
  let ?v2 = "[Finite 8, Finite 0, Finite 0]"
  have r: "is_binary32 4" "is_finite (fsub (Finite 8) (Finite 4))"
    "is_binary32 8" "is_binary32 (8 - 4)"
    by code_simp+
  have sub: "fadd (Finite 4) (fsub (Finite 8) (Finite 4)) = Finite 8"
    by code_simp
  have before: "bracket ex_clip3 (currentTime ex_baked3) = (0, 1)"
    by code_simp
  have s: "initialized ex_baked3" "0 \<le> currentAnimation ex_baked3"
    "currentAnimation ex_baked3 < animationCount ex_baked3"
    "ex_clip3 = animations ex_baked3 ! nat (currentAnimation ex_baked3)"
    "2 \<le> keyframeCount ex_clip3" "(0::int) \<le> 1" "1 < keyframeCount ex_clip3"
    "interpolationBuffer ex_baked3 = Some ?out" "vertexCount ex_baked3 = 1"
    by (simp_all add: ex_baked3_def ex_clip3_def)
  have k: "is_finite (ts ex_clip3 1)" "next_keyframe ex_clip3 1 = 2"
    "vertices (keyframes ex_clip3 ! nat 1) = Some ?v1"
    "vertices (keyframes ex_clip3 ! nat 2) = Some ?v2"
    by (simp_all add: ts_def next_keyframe_def ex_clip3_def ex_keyframe_def)
  have clock: "advance_time ex_clip3 (currentTime ex_baked3) (Finite (13421773 / 67108864))
                 = ts ex_clip3 1"
    by code_simp
  have p: "(0::int) \<le> 0" "(0::int) < 1 * 3" "nat (1 * 3) \<le> length ?out"
    "nat (1 * 3) \<le> length ?v1" "nat (1 * 3) \<le> length ?v2"
    "?v1 ! nat 0 = Finite 4" "?v2 ! nat 0 = Finite 8"
    by simp_all
  note inst = interpolate_endpoints [OF p]
  from inst [THEN conjunct1] r
  have zero: "Anim4dcInterpolateVertices ?out ?v1 ?v2 (Finite 0) 1 ! nat 0 = Finite 4"
    by simp
  from inst [THEN conjunct2, THEN conjunct1] sub
  have one: "Anim4dcInterpolateVertices ?out ?v1 ?v2 (Finite 1) 1 ! nat 0 = Finite 8"
    by simp
  have prem: "initialized ex_baked3 \<and> 0 \<le> currentAnimation ex_baked3 \<and>
      currentAnimation ex_baked3 < animationCount ex_baked3 \<and>
      ex_clip3 = animations ex_baked3 ! nat (currentAnimation ex_baked3) \<and>
      2 \<le> keyframeCount ex_clip3 \<and> increasing ex_clip3 \<and>
      (0::int) \<le> 1 \<and> 1 < keyframeCount ex_clip3 \<and> is_finite (ts ex_clip3 1) \<and>
      advance_time ex_clip3 (currentTime ex_baked3) (Finite (13421773 / 67108864))
        = ts ex_clip3 1 \<and>
      interpolationBuffer ex_baked3 = Some ?out \<and> vertexCount ex_baked3 = 1 \<and>
      vertices (keyframes ex_clip3 ! nat 1) = Some ?v1 \<and>
      vertices (keyframes ex_clip3 ! nat (next_keyframe ex_clip3 1)) = Some ?v2 \<and>
      is_binary32 4 \<and> is_finite (fsub (Finite 8) (Finite 4))"
    using s k clock r ex_clip3_increasing by simp
  from inst [THEN conjunct2, THEN conjunct2, THEN conjunct2, rule_format,
      of ex_baked3 ex_clip3 1 "Finite (13421773 / 67108864)", OF prem]
  have "bracket ex_clip3 (ts ex_clip3 1) = (1, 2) \<and>
        interpolation_factor ex_clip3 (ts ex_clip3 1) (1, 2) = Finite 0 \<and>
        (\<exists>res. Anim4dcGetInterpolatedVertices
                 (Anim4dcUpdateAnimation ex_baked3 (Finite (13421773 / 67108864))) = Some res \<and>
               res ! nat 0 = Finite 4)"
    by (simp add: k(2))
  with r zero one ex_clip3_increasing before clock show ?thesis
    by simp
qed

text \<open>
  When the subtraction rounds, the later keyframe is not reproduced at \<open>t = 1\<close>: between
  the components \<open>1.0f\<close> and \<open>0.1f\<close> (which is \<open>13421773 / 2^27\<close>) the difference rounds
  to \<open>-7549747 / 2^23\<close>, and the value written is \<open>838861 / 2^23\<close>, about
  \<open>0.10000002\<close>, not \<open>0.1f\<close>.
\<close>

theorem interpolate_endpoints_counterexample:
  "is_binary32 1 \<and> is_binary32 (13421773 / 134217728) \<and>
   Anim4dcInterpolateVertices [Finite 0, Finite 0, Finite 0]
     [Finite 1, Finite 0, Finite 0] [Finite (13421773 / 134217728), Finite 0, Finite 0]
     (Finite 1) 1
     = [Finite (838861 / 8388608), Finite 0, Finite 0] \<and>
   Anim4dcInterpolateVertices [Finite 0, Finite 0, Finite 0]
     [Finite 1, Finite 0, Finite 0] [Finite (13421773 / 134217728), Finite 0, Finite 0]
     (Finite 1) 1
     \<noteq> [Finite (13421773 / 134217728), Finite 0, Finite 0]"
  by code_simp

section \<open>Level-of-detail classification\<close>

lemma lod_constants:
  "ANIM4DC_LOD_NEAR_DIST2 = Finite 6400" "ANIM4DC_LOD_MID_DIST2 = Finite 14400"
  "ANIM4DC_LOD_FAR_DIST2 = Finite 25600" "ANIM4DC_LOD_CULL_DIST2 = Finite 40000"
  by code_simp+

lemma update_instance_consistent: "lod_consistent (fst (update_instance cam p))"
  by (simp add: update_instance_def lod_consistent_def Let_def)

lemma update_instance_tally:
  "visibleInstances (snd (update_instance cam p)) + culledInstances (snd (update_instance cam p))
     = visibleInstances (snd p) + culledInstances (snd p) + 1"
  by (simp add: update_instance_def Let_def)

lemma update_instance_bands:
  "lodLevel (fst (update_instance cam p)) =
     (let d2 = distanceSquared (fst (update_instance cam p))
      in if fgt d2 (Finite 40000) then ANIM4DC_LOD_CULLED
         else if fgt d2 (Finite 25600) then ANIM4DC_LOD_FAR
         else if fgt d2 (Finite 14400) then ANIM4DC_LOD_MID
         else ANIM4DC_LOD_NEAR)"
  by (simp add: update_instance_def Let_def lod_constants)

lemma update_lod_from_result:
  "\<lbrakk>0 \<le> i; i \<le> n; nat n \<le> length (fst p)\<rbrakk> \<Longrightarrow>
     \<exists>xs' st'. update_lod_from cam n i p = Some (xs', st') \<and>
        length xs' = length (fst p) \<and>
        (\<forall>k. k < nat i \<longrightarrow> xs' ! k = fst p ! k) \<and>
        (\<forall>k. nat i \<le> k \<and> k < nat n \<longrightarrow> lod_consistent (xs' ! k)) \<and>
        visibleInstances st' + culledInstances st'
          = visibleInstances (snd p) + culledInstances (snd p) + (n - i)"
proof (induction cam n i p rule: update_lod_from.induct)
  case (1 cam n i p)
  note eq = update_lod_from.simps [of cam n i p]
  show ?case
  proof (cases "i < n")
    case False
    then have "update_lod_from cam n i p = Some (fst p, snd p)"
      by (simp add: eq)
    moreover from False "1.prems" have "n - i = 0"
      by simp
    ultimately show ?thesis
      by (intro exI [of _ "fst p"] exI [of _ "snd p"]) auto
  next
    case True
    with "1.prems" have inb: "0 \<le> i \<and> nat i < length (fst p)"
      by linarith
    define r where "r = update_instance cam (fst p ! nat i, snd p)"
    define p' where "p' = ((fst p)[nat i := fst r], snd r)"
    have step: "update_lod_from cam n i p = update_lod_from cam n (i + 1) p'"
      using True inb by (simp add: eq r_def p'_def Let_def)
    have "\<exists>xs' st'. update_lod_from cam n (i + 1) p' = Some (xs', st') \<and>
        length xs' = length (fst p') \<and>
        (\<forall>k. k < nat (i + 1) \<longrightarrow> xs' ! k = fst p' ! k) \<and>
        (\<forall>k. nat (i + 1) \<le> k \<and> k < nat n \<longrightarrow> lod_consistent (xs' ! k)) \<and>
        visibleInstances st' + culledInstances st'
          = visibleInstances (snd p') + culledInstances (snd p') + (n - (i + 1))"
      unfolding p'_def r_def
      using "1.prems" True inb by (intro "1.IH" [OF True inb refl]) simp_all
    then obtain xs' st' where res: "update_lod_from cam n (i + 1) p' = Some (xs', st')"
      and len: "length xs' = length (fst p')"
      and before: "\<forall>k. k < nat (i + 1) \<longrightarrow> xs' ! k = fst p' ! k"
      and after: "\<forall>k. nat (i + 1) \<le> k \<and> k < nat n \<longrightarrow> lod_consistent (xs' ! k)"
      and tally: "visibleInstances st' + culledInstances st'
          = visibleInstances (snd p') + culledInstances (snd p') + (n - (i + 1))"
      by blast
    have here: "xs' ! nat i = fst r"
      using before inb by (simp add: p'_def)
    have a: "length xs' = length (fst p)"
      using len by (simp add: p'_def)
    have b: "xs' ! k = fst p ! k" if "k < nat i" for k
      using before that inb by (simp add: p'_def)
    have c: "lod_consistent (xs' ! k)" if "nat i \<le> k \<and> k < nat n" for k
    proof (cases "k = nat i")
      case True
      with here show ?thesis
        by (simp add: r_def update_instance_consistent)
    next
      case False
      with that inb have "nat (i + 1) \<le> k"
        by linarith
      with after that show ?thesis
        by simp
    qed
    have d: "visibleInstances st' + culledInstances st'
          = visibleInstances (snd p) + culledInstances (snd p) + (n - i)"
      using tally update_instance_tally [of cam "(fst p ! nat i, snd p)"]
      by (simp add: p'_def r_def)
    from res a b c d show ?thesis
      unfolding step by blast
  qed
qed

text \<open>
  C10. A call of \<^verbatim>\<open>Anim4dcUpdateInstanceLOD\<close> on \<open>instanceCount\<close> instances (an array that
  holds that many) returns; afterwards each of these instances is visible if and only if
  its tier is not \<^verbatim>\<open>CULLED\<close>, none has the tier \<^verbatim>\<open>FROZEN\<close>, and the counters that
  \<^verbatim>\<open>Anim4dcGetStats\<close> reports satisfy
  \<open>visibleInstances + culledInstances = instanceCount\<close>.
\<close>

theorem lod_invariants:
  assumes "0 \<le> instanceCount" "nat instanceCount \<le> length instances"
  shows "\<exists>instances' stats'.
           Anim4dcUpdateInstanceLOD stats instances instanceCount cameraPosition
             = Some (instances', stats') \<and>
           (\<forall>i. i < nat instanceCount \<longrightarrow>
              (visible (instances' ! i) \<longleftrightarrow> lodLevel (instances' ! i) \<noteq> ANIM4DC_LOD_CULLED) \<and>
              lodLevel (instances' ! i) \<noteq> ANIM4DC_LOD_FROZEN) \<and>
           visibleInstances (Anim4dcGetStats stats') + culledInstances (Anim4dcGetStats stats')
             = instanceCount"
proof -
  let ?p = "(instances, stats\<lparr>visibleInstances := 0, culledInstances := 0\<rparr>)"
  from assms have "0 \<le> (0::int)" "0 \<le> instanceCount" "nat instanceCount \<le> length (fst ?p)"
    by simp_all
  from update_lod_from_result [OF this, of cameraPosition]
  obtain xs' st' where "update_lod_from cameraPosition instanceCount 0 ?p = Some (xs', st')"
    and "\<forall>k. nat 0 \<le> k \<and> k < nat instanceCount \<longrightarrow> lod_consistent (xs' ! k)"
    and "visibleInstances st' + culledInstances st'
          = visibleInstances (snd ?p) + culledInstances (snd ?p) + (instanceCount - 0)"
    by blast
  then show ?thesis
    by (intro exI [of _ xs'] exI [of _ st'])
       (simp add: Anim4dcUpdateInstanceLOD_def Anim4dcGetStats_def lod_consistent_def)
qed

text \<open>The theorem for two instances, at the squared distances 6401 and 40001.\<close>

theorem lod_invariants_witness:
  "(0::int) \<le> 2 \<and> nat 2 \<le> length [ex_instance 80 1, ex_instance 200 1] \<and>
   (\<exists>instances' stats'.
      Anim4dcUpdateInstanceLOD zero_stats [ex_instance 80 1, ex_instance 200 1] 2 ex_origin
        = Some (instances', stats') \<and>
      (\<forall>i. i < nat 2 \<longrightarrow>
         (visible (instances' ! i) \<longleftrightarrow> lodLevel (instances' ! i) \<noteq> ANIM4DC_LOD_CULLED) \<and>
         lodLevel (instances' ! i) \<noteq> ANIM4DC_LOD_FROZEN) \<and>
      visibleInstances (Anim4dcGetStats stats') + culledInstances (Anim4dcGetStats stats') = 2)"
proof -
  have h: "(0::int) \<le> 2" "nat 2 \<le> length [ex_instance 80 1, ex_instance 200 1]"
    by simp_all
  from h lod_invariants [OF h, of zero_stats ex_origin] show ?thesis
    by simp
qed

text \<open>
  C1. The tiers the code gives at the six squared distances of the claim, for instances at
  \<open>(80, 0)\<close>, \<open>(80, 1)\<close>, \<open>(120, 0)\<close>, \<open>(120, 1)\<close>, \<open>(200, 0)\<close> and \<open>(200, 1)\<close> seen from
  the origin: \<^verbatim>\<open>NEAR\<close> at 6400, 6401 and 14400, \<^verbatim>\<open>MID\<close> at 14401, \<^verbatim>\<open>FAR\<close> at 40000 and
  \<^verbatim>\<open>CULLED\<close> at 40001. The claim has \<^verbatim>\<open>MID\<close> at 6401 and 14400 and \<^verbatim>\<open>FAR\<close> at 14401:
  the code never compares with \<^verbatim>\<open>ANIM4DC_LOD_NEAR_DIST2\<close> (see \<open>update_instance_bands\<close>).
\<close>

theorem lod_tiers_at_claimed_boundaries:
  "map_option (\<lambda>r. map (\<lambda>instance. (distanceSquared instance, lodLevel instance, visible instance)) (fst r))
     (Anim4dcUpdateInstanceLOD zero_stats
        [ex_instance 80 0, ex_instance 80 1, ex_instance 120 0, ex_instance 120 1,
         ex_instance 200 0, ex_instance 200 1] 6 ex_origin)
   = Some [(Finite 6400, ANIM4DC_LOD_NEAR, True), (Finite 6401, ANIM4DC_LOD_NEAR, True),
           (Finite 14400, ANIM4DC_LOD_NEAR, True), (Finite 14401, ANIM4DC_LOD_MID, True),
           (Finite 40000, ANIM4DC_LOD_FAR, True), (Finite 40001, ANIM4DC_LOD_CULLED, False)]"
  by code_simp

section \<open>Compatibility check\<close>

lemma has_skinning_from_result:
  "\<lbrakk>0 \<le> i; nat (meshCount model) \<le> length (meshes model)\<rbrakk> \<Longrightarrow>
     has_skinning_from model i
       = Some (\<exists>k. i \<le> k \<and> k < meshCount model \<and> skinned (meshes model ! nat k))"
proof (induction model i rule: has_skinning_from.induct)
  case (1 model i)
  note eq = has_skinning_from.simps [of model i]
  show ?case
  proof (cases "i < meshCount model")
    case False
    then have "\<not> (\<exists>k. i \<le> k \<and> k < meshCount model \<and> skinned (meshes model ! nat k))"
      by auto
    with False show ?thesis
      by (simp add: eq)
  next
    case True
    with "1.prems" have inb: "nat i < length (meshes model)"
      by linarith
    show ?thesis
    proof (cases "skinned (meshes model ! nat i)")
      case sk: True
      with True have "\<exists>k. i \<le> k \<and> k < meshCount model \<and> skinned (meshes model ! nat k)"
        by (intro exI [of _ i]) simp
      with True inb sk show ?thesis
        by (simp add: eq skinned_def Let_def)
    next
      case ns: False
      then have ns': "\<not> (boneIds (meshes model ! nat i) \<noteq> NULL \<and>
                          boneWeights (meshes model ! nat i) \<noteq> NULL \<and>
                          animVertices (meshes model ! nat i) \<noteq> None)"
        by (simp add: skinned_def)
      have "has_skinning_from model (i + 1)
              = Some (\<exists>k. i + 1 \<le> k \<and> k < meshCount model \<and> skinned (meshes model ! nat k))"
        using "1.prems" by (intro "1.IH" [OF True inb refl ns']) simp_all
      moreover have "(\<exists>k. i + 1 \<le> k \<and> k < meshCount model \<and> skinned (meshes model ! nat k))
                   \<longleftrightarrow> (\<exists>k. i \<le> k \<and> k < meshCount model \<and> skinned (meshes model ! nat k))"
      proof
        assume "\<exists>k. i + 1 \<le> k \<and> k < meshCount model \<and> skinned (meshes model ! nat k)"
        then obtain k where "i + 1 \<le> k \<and> k < meshCount model \<and> skinned (meshes model ! nat k)" ..
        then have "i \<le> k \<and> k < meshCount model \<and> skinned (meshes model ! nat k)"
          by simp
        then show "\<exists>k. i \<le> k \<and> k < meshCount model \<and> skinned (meshes model ! nat k)" ..
      next
        assume "\<exists>k. i \<le> k \<and> k < meshCount model \<and> skinned (meshes model ! nat k)"
        then obtain k where k: "i \<le> k \<and> k < meshCount model \<and> skinned (meshes model ! nat k)" ..
        with ns have "k \<noteq> i"
          by auto
        with k have "i + 1 \<le> k \<and> k < meshCount model \<and> skinned (meshes model ! nat k)"
          by simp
        then show "\<exists>k. i + 1 \<le> k \<and> k < meshCount model \<and> skinned (meshes model ! nat k)" ..
      qed
      ultimately show ?thesis
        using True inb ns' by (auto simp: eq Let_def)
    qed
  qed
qed

text \<open>
  C6. For a model whose mesh array holds \<open>meshCount\<close> meshes and an animation array that
  is not empty when \<open>count\<close> is positive, \<^verbatim>\<open>Anim4dcCheckModelCompatibility\<close> returns, and
  it returns false exactly when the model has no meshes (\<open>meshCount \<le> 0\<close>), the animation
  count is zero or negative, the model has no bones (\<open>boneCount \<le> 0\<close>) or a null bone or
  bind-pose pointer, the first animation's bone count differs from the model's, the first
  animation has a null bone or frame-pose pointer, or no mesh has bone ids, bone weights
  and animated vertices together. Whenever it returns false, \<^verbatim>\<open>Anim4dcBakeVertexAnimations\<close>
  returns false too and gives back the animation system and the statistics unchanged.
\<close>

theorem check_compatibility:
  assumes "nat (meshCount model) \<le> length (meshes model)" "0 < count \<longrightarrow> anims \<noteq> []"
  shows "Anim4dcCheckModelCompatibility model anims count
           = Some (\<not> (meshCount model \<le> 0 \<or> count \<le> 0 \<or>
                      boneCount model \<le> 0 \<or> bones model = NULL \<or> bindPose model = NULL \<or>
                      anim_boneCount (anims ! 0) \<noteq> boneCount model \<or>
                      anim_bones (anims ! 0) = NULL \<or> framePoses (anims ! 0) = NULL \<or>
                      \<not> has_skinned_mesh model)) \<and>
         (Anim4dcCheckModelCompatibility model anims count = Some False \<longrightarrow>
            Anim4dcBakeVertexAnimations h upd (s, stats) model anims count
              = Some (False, s, stats))"
proof
  have sk: "has_skinning_from model 0 = Some (has_skinned_mesh model)"
    using assms(1) by (simp add: has_skinning_from_result has_skinned_mesh_def)
  show "Anim4dcCheckModelCompatibility model anims count
           = Some (\<not> (meshCount model \<le> 0 \<or> count \<le> 0 \<or>
                      boneCount model \<le> 0 \<or> bones model = NULL \<or> bindPose model = NULL \<or>
                      anim_boneCount (anims ! 0) \<noteq> boneCount model \<or>
                      anim_bones (anims ! 0) = NULL \<or> framePoses (anims ! 0) = NULL \<or>
                      \<not> has_skinned_mesh model))"
  proof (cases anims)
    case Nil
    with assms(2) have "count \<le> 0"
      by simp
    then show ?thesis
      by (simp add: Anim4dcCheckModelCompatibility_def)
  next
    case (Cons anim rest)
    then show ?thesis
      by (simp add: Anim4dcCheckModelCompatibility_def sk)
  qed
  show "Anim4dcCheckModelCompatibility model anims count = Some False \<longrightarrow>
            Anim4dcBakeVertexAnimations h upd (s, stats) model anims count
              = Some (False, s, stats)"
    by (simp add: Anim4dcBakeVertexAnimations_def)
qed

text \<open>
  The example model passes; with 20 bones in the model and 15 in the animation the check
  fails, and a bake attempted on the baked example state leaves that state as it is.
\<close>

theorem check_compatibility_witness:
  "nat (meshCount ex_model) \<le> length (meshes ex_model) \<and>
   [ex_anim 8] \<noteq> [] \<and>
   Anim4dcCheckModelCompatibility ex_model [ex_anim 8] 1 = Some True \<and>
   Anim4dcCheckModelCompatibility (ex_model\<lparr>boneCount := 20\<rparr>)
     [(ex_anim 8)\<lparr>anim_boneCount := 15\<rparr>] 1 = Some False \<and>
   Anim4dcBakeVertexAnimations ex_heap ex_upd (ex_baked, zero_stats) (ex_model\<lparr>boneCount := 20\<rparr>)
     [(ex_anim 8)\<lparr>anim_boneCount := 15\<rparr>] 1 = Some (False, ex_baked, zero_stats)"
proof -
  have m: "nat (meshCount ex_model) \<le> length (meshes ex_model)"
    "nat (meshCount (ex_model\<lparr>boneCount := 20\<rparr>)) \<le> length (meshes (ex_model\<lparr>boneCount := 20\<rparr>))"
    by (simp_all add: ex_model_def)
  have a: "(0::int) < 1 \<longrightarrow> [ex_anim 8] \<noteq> []"
    "(0::int) < 1 \<longrightarrow> [(ex_anim 8)\<lparr>anim_boneCount := 15\<rparr>] \<noteq> []"
    by simp_all
  have "skinned (meshes ex_model ! nat 0)"
    by (simp add: skinned_def ex_model_def ex_mesh_def)
  then have sk: "has_skinned_mesh ex_model"
    unfolding has_skinned_mesh_def by (intro exI [of _ 0]) (simp add: ex_model_def)
  from check_compatibility [OF m(1) a(1), of ex_heap ex_upd ex_baked zero_stats]
       check_compatibility [OF m(2) a(2), of ex_heap ex_upd ex_baked zero_stats] m a sk
  show ?thesis
    by (simp add: ex_model_def ex_anim_def)
qed

section \<open>Memory accounting\<close>

lemma add_bytes_exact:
  "\<lbrakk>0 \<le> acc; 0 \<le> V; acc + keyframe_bytes V < 2 ^ 31\<rbrakk>
     \<Longrightarrow> add_bytes acc V = acc + keyframe_bytes V"
  by (simp add: add_bytes_def int32_of_u32_def keyframe_bytes_def)

lemma keyframe_bytes_nonneg: "0 \<le> V \<Longrightarrow> 0 \<le> keyframe_bytes V"
  by (simp add: keyframe_bytes_def)

lemma usage_keyframes_sum:
  "\<lbrakk>0 \<le> k; k \<le> keyframeCount anim;
    \<forall>j. k \<le> j \<and> j < keyframeCount anim \<longrightarrow>
        vertices (keyframes anim ! nat j) \<noteq> None \<and> kf_vertexCount (keyframes anim ! nat j) = V;
    0 \<le> V; 0 \<le> acc; acc + (keyframeCount anim - k) * keyframe_bytes V < 2 ^ 31\<rbrakk>
     \<Longrightarrow> usage_keyframes anim k acc = acc + (keyframeCount anim - k) * keyframe_bytes V"
proof (induction anim k acc rule: usage_keyframes.induct)
  case (1 anim k acc)
  note eq = usage_keyframes.simps [of anim k acc]
  let ?B = "keyframe_bytes V"
  show ?case
  proof (cases "k < keyframeCount anim")
    case False
    with "1.prems" have "keyframeCount anim - k = 0"
      by simp
    with False show ?thesis
      by (simp add: eq)
  next
    case True
    with "1.prems" have here: "vertices (keyframes anim ! nat k) \<noteq> None"
        "kf_vertexCount (keyframes anim ! nat k) = V"
      by simp_all
    have B: "0 \<le> ?B"
      using "1.prems" by (simp add: keyframe_bytes_nonneg)
    have split: "(keyframeCount anim - k) * ?B = ?B + (keyframeCount anim - (k + 1)) * ?B"
      by (simp add: algebra_simps)
    from True have "0 \<le> keyframeCount anim - (k + 1)"
      by simp
    then have nonneg: "0 \<le> (keyframeCount anim - (k + 1)) * ?B"
      using B by (rule mult_nonneg_nonneg)
    from "1.prems" split nonneg have small: "acc + ?B < 2 ^ 31"
      by linarith
    with "1.prems" have ab: "add_bytes acc V = acc + ?B"
      by (simp add: add_bytes_exact)
    have acc': "(if vertices (keyframes anim ! nat k) \<noteq> None
                 then add_bytes acc (kf_vertexCount (keyframes anim ! nat k)) else acc) = acc + ?B"
      using here ab by simp
    have "usage_keyframes anim (k + 1) (acc + ?B)
            = acc + ?B + (keyframeCount anim - (k + 1)) * ?B"
    proof (rule "1.IH" [OF True, unfolded acc'])
      show "0 \<le> k + 1" "k + 1 \<le> keyframeCount anim" "0 \<le> V" "0 \<le> acc + ?B"
        using "1.prems" True B by simp_all
      show "\<forall>j. k + 1 \<le> j \<and> j < keyframeCount anim \<longrightarrow>
              vertices (keyframes anim ! nat j) \<noteq> None \<and> kf_vertexCount (keyframes anim ! nat j) = V"
        using "1.prems" by simp
      show "acc + ?B + (keyframeCount anim - (k + 1)) * ?B < 2 ^ 31"
        using "1.prems" split by linarith
    qed
    with True acc' split show ?thesis
      by (simp only: eq if_True)
  qed
qed

lemma usage_animations_sum:
  "\<lbrakk>0 \<le> a; a \<le> animationCount s; 0 \<le> K; 0 \<le> V; 0 \<le> acc;
    \<forall>b. a \<le> b \<and> b < animationCount s \<longrightarrow>
        keyframeCount (animations s ! nat b) = K \<and>
        (\<forall>k. 0 \<le> k \<and> k < K \<longrightarrow>
           vertices (keyframes (animations s ! nat b) ! nat k) \<noteq> None \<and>
           kf_vertexCount (keyframes (animations s ! nat b) ! nat k) = V);
    acc + (animationCount s - a) * (K * keyframe_bytes V) < 2 ^ 31\<rbrakk>
     \<Longrightarrow> usage_animations s a acc = acc + (animationCount s - a) * (K * keyframe_bytes V)"
proof (induction s a acc rule: usage_animations.induct)
  case (1 s a acc)
  note eq = usage_animations.simps [of s a acc]
  let ?C = "K * keyframe_bytes V"
  show ?case
  proof (cases "a < animationCount s")
    case False
    with "1.prems" have "animationCount s - a = 0"
      by simp
    with False show ?thesis
      by (simp add: eq)
  next
    case True
    let ?anim = "animations s ! nat a"
    from True "1.prems" have kc: "keyframeCount ?anim = K"
      and kfs: "\<forall>k. 0 \<le> k \<and> k < K \<longrightarrow>
           vertices (keyframes ?anim ! nat k) \<noteq> None \<and> kf_vertexCount (keyframes ?anim ! nat k) = V"
      by simp_all
    have C: "0 \<le> ?C"
      using "1.prems" by (intro mult_nonneg_nonneg) (simp_all add: keyframe_bytes_nonneg)
    have split: "(animationCount s - a) * ?C = ?C + (animationCount s - (a + 1)) * ?C"
      by (simp add: algebra_simps)
    from True have "0 \<le> animationCount s - (a + 1)"
      by simp
    then have nonneg: "0 \<le> (animationCount s - (a + 1)) * ?C"
      using C by (rule mult_nonneg_nonneg)
    from "1.prems" split nonneg have small: "acc + ?C < 2 ^ 31"
      by linarith
    have inner: "usage_keyframes ?anim 0 acc = acc + ?C"
      using usage_keyframes_sum [of 0 ?anim V acc] kc kfs "1.prems" small by simp
    have "usage_animations s (a + 1) (acc + ?C)
            = acc + ?C + (animationCount s - (a + 1)) * ?C"
    proof (rule "1.IH" [OF True, unfolded inner])
      show "0 \<le> a + 1" "a + 1 \<le> animationCount s" "0 \<le> K" "0 \<le> V" "0 \<le> acc + ?C"
        using "1.prems" True C by simp_all
      show "\<forall>b. a + 1 \<le> b \<and> b < animationCount s \<longrightarrow>
        keyframeCount (animations s ! nat b) = K \<and>
        (\<forall>k. 0 \<le> k \<and> k < K \<longrightarrow>
           vertices (keyframes (animations s ! nat b) ! nat k) \<noteq> None \<and>
           kf_vertexCount (keyframes (animations s ! nat b) ! nat k) = V)"
        using "1.prems" by simp
      show "acc + ?C + (animationCount s - (a + 1)) * ?C < 2 ^ 31"
        using "1.prems" split by linarith
    qed
    with True inner split show ?thesis
      by (simp only: eq if_True)
  qed
qed

lemma ex_wide_uniform: "uniform_clips ex_wide 2 2 100"
proof -
  have "keyframeCount (animations ex_wide ! nat a) = 2 \<and>
        (\<forall>k. 0 \<le> k \<and> k < 2 \<longrightarrow>
           vertices (keyframes (animations ex_wide ! nat a) ! nat k) \<noteq> None \<and>
           kf_vertexCount (keyframes (animations ex_wide ! nat a) ! nat k) = 100)"
    if "0 \<le> a \<and> a < 2" for a :: int
  proof -
    from that have a: "a = 0 \<or> a = 1"
      by linarith
    have "vertices (keyframes (ex_wide_clip nm) ! nat k) \<noteq> None \<and>
          kf_vertexCount (keyframes (ex_wide_clip nm) ! nat k) = 100" if "0 \<le> k \<and> k < 2" for k :: int and nm
    proof -
      from that have "k = 0 \<or> k = 1"
        by linarith
      then show ?thesis
        by (auto simp: ex_wide_clip_def ex_wide_keyframe_def)
    qed
    with a show ?thesis
      by (auto simp: ex_wide_def ex_wide_clip_def)
  qed
  then show ?thesis
    by (simp add: uniform_clips_def ex_wide_def)
qed

text \<open>
  C2, as the code has it. For a system with \<open>N\<close> baked clips of \<open>K\<close> keyframes of \<open>V\<close>
  vertices each and an allocated interpolation buffer of \<open>V\<close> vertices, whose byte total
  \<open>N * K * V * 3 * 4 + V * 3 * 4\<close> fits a 32-bit \<^verbatim>\<open>int\<close>,
  \<^verbatim>\<open>Anim4dcCalculateMemoryUsage\<close> returns that total divided by 1024 and rounded down: a
  number of kilobytes. The value depends on the current state alone, and it is 0 after
  \<^verbatim>\<open>Anim4dcShutdown\<close>, so nothing of an earlier bake is counted after a new one.
\<close>

theorem memory_usage:
  assumes "uniform_clips s N K V" "interpolationBuffer s \<noteq> None"
    and "0 \<le> N" "0 \<le> K" "0 \<le> V"
    and "N * K * V * 3 * 4 + V * 3 * 4 < 2 ^ 31"
  shows "Anim4dcCalculateMemoryUsage s = (N * K * V * 3 * 4 + V * 3 * 4) div 1024 \<and>
         (initialized s \<longrightarrow> Anim4dcCalculateMemoryUsage (Anim4dcShutdown s) = 0)"
proof
  let ?B = "keyframe_bytes V"
  have B: "0 \<le> ?B"
    using assms(5) by (simp add: keyframe_bytes_nonneg)
  have nn: "0 \<le> N * (K * ?B)"
    using assms(3,4) B by (intro mult_nonneg_nonneg) simp_all
  have re: "N * K * V * 3 * 4 + V * 3 * 4 = N * (K * ?B) + ?B"
    by (simp add: keyframe_bytes_def algebra_simps)
  from assms(1) have cnt: "animationCount s = N" and vc: "vertexCount s = V"
    and clips: "\<forall>b. 0 \<le> b \<and> b < animationCount s \<longrightarrow>
        keyframeCount (animations s ! nat b) = K \<and>
        (\<forall>k. 0 \<le> k \<and> k < K \<longrightarrow>
           vertices (keyframes (animations s ! nat b) ! nat k) \<noteq> None \<and>
           kf_vertexCount (keyframes (animations s ! nat b) ! nat k) = V)"
    by (simp_all add: uniform_clips_def)
  have bound: "N * (K * ?B) + ?B < 2 ^ 31"
    using assms(6) re by simp
  have "usage_animations s 0 0 = 0 + (animationCount s - 0) * (K * ?B)"
  proof (rule usage_animations_sum)
    show "(0::int) \<le> 0" "0 \<le> animationCount s" "0 \<le> K" "0 \<le> V" "(0::int) \<le> 0"
      using assms cnt by simp_all
    show "\<forall>b. 0 \<le> b \<and> b < animationCount s \<longrightarrow>
        keyframeCount (animations s ! nat b) = K \<and>
        (\<forall>k. 0 \<le> k \<and> k < K \<longrightarrow>
           vertices (keyframes (animations s ! nat b) ! nat k) \<noteq> None \<and>
           kf_vertexCount (keyframes (animations s ! nat b) ! nat k) = V)"
      by (fact clips)
    show "0 + (animationCount s - 0) * (K * ?B) < 2 ^ 31"
      using bound B cnt by simp
  qed
  then have u: "usage_animations s 0 0 = N * (K * ?B)"
    using cnt by simp
  have ab: "add_bytes (N * (K * ?B)) V = N * (K * ?B) + ?B"
    using nn assms(5) bound by (intro add_bytes_exact) simp_all
  have "0 \<le> N * (K * ?B) + ?B"
    using nn B by simp
  then have sd: "(N * (K * ?B) + ?B) sdiv 1024 = (N * (K * ?B) + ?B) div 1024"
    by (simp add: signed_divide_int_def sgn_if)
  from assms(2) obtain buf where "interpolationBuffer s = Some buf"
    by blast
  then have "Anim4dcCalculateMemoryUsage s = (N * (K * ?B) + ?B) div 1024"
    using u ab sd vc by (simp add: Anim4dcCalculateMemoryUsage_def Let_def)
  then show "Anim4dcCalculateMemoryUsage s = (N * K * V * 3 * 4 + V * 3 * 4) div 1024"
    unfolding re .
  show "initialized s \<longrightarrow> Anim4dcCalculateMemoryUsage (Anim4dcShutdown s) = 0"
    by (simp add: Anim4dcShutdown_def Anim4dcCalculateMemoryUsage_def zero_system_def
          usage_animations.simps [of _ 0 0] Let_def)
qed

text \<open>Two clips of two keyframes of 100 vertices: 6000 bytes, reported as 5.\<close>

theorem memory_usage_witness:
  "uniform_clips ex_wide 2 2 100 \<and> interpolationBuffer ex_wide \<noteq> None \<and>
   (2::int) * 2 * 100 * 3 * 4 + 100 * 3 * 4 < 2 ^ 31 \<and>
   Anim4dcCalculateMemoryUsage ex_wide = 5 \<and> initialized ex_wide \<and>
   Anim4dcCalculateMemoryUsage (Anim4dcShutdown ex_wide) = 0"
proof -
  have b: "interpolationBuffer ex_wide \<noteq> None" and i: "initialized ex_wide"
    by (simp_all add: ex_wide_def)
  have n: "(0::int) \<le> 2" "(0::int) \<le> 2" "(0::int) \<le> 100"
    "(2::int) * 2 * 100 * 3 * 4 + 100 * 3 * 4 < 2 ^ 31"
    by simp_all
  from memory_usage [OF ex_wide_uniform b n] ex_wide_uniform b i show ?thesis
    by simp
qed

text \<open>
  In that state the claim's formula gives 6000, the function 5: the state
  \<open>ex_wide\<close> is the one \<open>ex_wide_reached\<close> shows a bake to produce.
\<close>

theorem memory_usage_counterexample:
  "animationCount ex_wide = 2 \<and>
   keyframeCount (animations ex_wide ! 0) = 2 \<and> keyframeCount (animations ex_wide ! 1) = 2 \<and>
   map kf_vertexCount (take 2 (keyframes (animations ex_wide ! 0))) = [100, 100] \<and>
   map kf_vertexCount (take 2 (keyframes (animations ex_wide ! 1))) = [100, 100] \<and>
   vertexCount ex_wide = 100 \<and> interpolationBuffer ex_wide \<noteq> None \<and>
   Anim4dcCalculateMemoryUsage ex_wide = 5 \<and>
   Anim4dcCalculateMemoryUsage ex_wide \<noteq> 2 * 2 * 100 * 3 * 4 + 100 * 3 * 4"
  by code_simp

section \<open>Sampling in the bake\<close>

lemma capture_ok:
  assumes "h m = Some fill" "keyframeCount va = c" "0 \<le> c" "c < 20"
  shows "Anim4dcCaptureVertexKeyframe h (va, m) stamp vdata V =
           (va\<lparr>keyframes := (keyframes va)
                  [nat c := (keyframes va ! nat c)
                     \<lparr>vertices := Some (take (nat (V * 3)) vdata),
                      kf_vertexCount := V, timestamp := stamp\<rparr>],
               keyframeCount := c + 1\<rparr>, Suc m)"
  using assms
  by (simp add: Anim4dcCaptureVertexKeyframe_def malloc_def ANIM4DC_MAX_KEYFRAMES_def Let_def)

lemma capture_full:
  "20 \<le> keyframeCount va \<Longrightarrow> Anim4dcCaptureVertexKeyframe h (va, m) stamp vdata V = (va, m)"
  by (simp add: Anim4dcCaptureVertexKeyframe_def ANIM4DC_MAX_KEYFRAMES_def Let_def)

lemma capture_sampled:
  fixes m :: nat
  assumes ok: "j < 20 \<longrightarrow> h m \<noteq> None" and j: "0 \<le> j"
    and s: "sampled upd model skelAnim V va j"
  defines "r \<equiv> Anim4dcCaptureVertexKeyframe h (va, m)
                 (fdiv (float_of_int (j * keyframeStep skelAnim)) (Finite 20))
                 (upd model skelAnim (j * keyframeStep skelAnim)) V"
  shows "sampled upd model skelAnim V (fst r) (j + 1) \<and> duration (fst r) = duration va \<and>
         name (fst r) = name va \<and> snd r = (if j < 20 then Suc m else m)"
proof (cases "j < 20")
  case False
  with s have "20 \<le> keyframeCount va"
    by (simp add: sampled_def)
  then have "r = (va, m)"
    by (simp add: r_def capture_full)
  with False s show ?thesis
    by (simp add: sampled_def)
next
  case True
  with ok obtain fill where fill: "h m = Some fill"
    by blast
  from True s j have kc: "keyframeCount va = j" and len: "length (keyframes va) = 20"
    and old: "\<forall>k. 0 \<le> k \<and> k < j \<longrightarrow>
        sample_of upd model skelAnim V (k * keyframeStep skelAnim) (keyframes va ! nat k)"
    by (simp_all add: sampled_def)
  let ?kf = "(keyframes va ! nat j)
               \<lparr>vertices := Some (take (nat (V * 3)) (upd model skelAnim (j * keyframeStep skelAnim))),
                kf_vertexCount := V,
                timestamp := fdiv (float_of_int (j * keyframeStep skelAnim)) (Finite 20)\<rparr>"
  have r: "r = (va\<lparr>keyframes := (keyframes va)[nat j := ?kf], keyframeCount := j + 1\<rparr>, Suc m)"
    unfolding r_def using capture_ok [of h m fill va j] fill kc j True by simp
  have new: "sample_of upd model skelAnim V (k * keyframeStep skelAnim) (keyframes (fst r) ! nat k)"
    if k: "0 \<le> k \<and> k < j + 1" for k
  proof (cases "k = j")
    case True
    with j \<open>j < 20\<close> len show ?thesis
      by (simp add: r sample_of_def)
  next
    case False
    with k j have "k < j" and "nat k \<noteq> nat j"
      by linarith+
    with old k show ?thesis
      by (simp add: r)
  qed
  from True j have "min 20 (j + 1) = j + 1"
    by simp
  with new len True show ?thesis
    by (simp add: sampled_def r)
qed

lemma frames_below_iff:
  "0 \<le> j \<Longrightarrow> j * keyframeStep skelAnim < frameCount skelAnim \<longleftrightarrow> j < frames_below skelAnim"
  by (auto simp: frames_below_def keyframeStep_def)

text \<open>
  The inner loop from the \<open>j\<close>-th frame of the stride on, when the allocations up to the
  last keyframe of the clip succeed: \<open>m0\<close> is the number of allocations made before the
  clip.
\<close>

lemma bake_frames_sampled:
  "\<lbrakk>animVertices (meshes model ! 0) \<noteq> None; frameCount skelAnim \<le> INT_MAX - 7;
    0 \<le> j; frame = j * keyframeStep skelAnim; sampled upd model skelAnim V (fst vm) j;
    snd vm = m0 + nat (min 20 j);
    \<forall>m. m < m0 + nat (min 20 (max j (frames_below skelAnim))) \<longrightarrow> h m \<noteq> None\<rbrakk>
     \<Longrightarrow> \<exists>va. bake_frames h upd model skelAnim V frame vm
                  = Some (va, m0 + nat (min 20 (max j (frames_below skelAnim)))) \<and>
              sampled upd model skelAnim V va (max j (frames_below skelAnim)) \<and>
              duration va = duration (fst vm) \<and> name va = name (fst vm)"
proof (induction h upd model skelAnim V frame vm arbitrary: j rule: bake_frames.induct)
  case (1 h upd model skelAnim V frame vm)
  note eq = bake_frames.simps [of h upd model skelAnim V frame vm]
  show ?case
  proof (cases "frame < frameCount skelAnim")
    case False
    with "1.prems" have "\<not> j < frames_below skelAnim"
      by (simp add: frames_below_iff)
    then have "max j (frames_below skelAnim) = j"
      by simp
    moreover from False have "bake_frames h upd model skelAnim V frame vm = Some (fst vm, snd vm)"
      by (simp add: eq)
    ultimately show ?thesis
      using "1.prems"(5,6) by simp
  next
    case True
    with "1.prems" have lt: "j < frames_below skelAnim"
      by (simp add: frames_below_iff)
    then have mx: "max j (frames_below skelAnim) = max (j + 1) (frames_below skelAnim)"
      by simp
    from True "1.prems"(2) have fit: "frame + keyframeStep skelAnim \<le> INT_MAX"
      by (simp add: keyframeStep_def INT_MAX_def)
    from "1.prems"(1) obtain buf where buf: "animVertices (meshes model ! 0) = Some buf"
      by blast
    define vm' where "vm' = Anim4dcCaptureVertexKeyframe h vm
                    (fdiv (float_of_int frame) (Finite 20)) (upd model skelAnim frame) V"
    have step: "bake_frames h upd model skelAnim V frame vm
                  = bake_frames h upd model skelAnim V (frame + keyframeStep skelAnim) vm'"
      using True fit buf by (simp add: eq vm'_def)
    have vm': "vm' = Anim4dcCaptureVertexKeyframe h (fst vm, snd vm)
                    (fdiv (float_of_int (j * keyframeStep skelAnim)) (Finite 20))
                    (upd model skelAnim (j * keyframeStep skelAnim)) V"
      by (simp add: vm'_def "1.prems"(4))
    have here: "j < 20 \<longrightarrow> h (snd vm) \<noteq> None"
    proof
      assume "j < 20"
      with lt "1.prems"(3,6) have "snd vm < m0 + nat (min 20 (max j (frames_below skelAnim)))"
        by simp
      with "1.prems"(7) show "h (snd vm) \<noteq> None"
        by blast
    qed
    have cap: "sampled upd model skelAnim V (fst vm') (j + 1) \<and>
               duration (fst vm') = duration (fst vm) \<and> name (fst vm') = name (fst vm) \<and>
               snd vm' = (if j < 20 then Suc (snd vm) else snd vm)"
      unfolding vm' using here "1.prems"(3,5) by (rule capture_sampled)
    then have "snd vm' = (if j < 20 then Suc (snd vm) else snd vm)"
      by simp
    with "1.prems"(3,6) have cnt: "snd vm' = m0 + nat (min 20 (j + 1))"
      by (cases "j < 20") (simp_all add: nat_add_distrib)
    have vm'_eq: "(case animVertices (meshes model ! 0) of
                     None \<Rightarrow> vm
                   | Some _ \<Rightarrow> Anim4dcCaptureVertexKeyframe h vm
                                (fdiv (float_of_int frame) (Finite 20)) (upd model skelAnim frame) V)
                  = vm'"
      using buf by (simp add: vm'_def)
    have heap': "\<forall>m. m < m0 + nat (min 20 (max (j + 1) (frames_below skelAnim))) \<longrightarrow> h m \<noteq> None"
      using "1.prems"(7) unfolding mx .
    have fr: "frame + keyframeStep skelAnim = (j + 1) * keyframeStep skelAnim"
      using "1.prems"(4) by (simp add: algebra_simps)
    from "1.prems"(3) have j1: "0 \<le> j + 1"
      by simp
    from cap have samp: "sampled upd model skelAnim V (fst vm') (j + 1)"
      by simp
    have "\<exists>va. bake_frames h upd model skelAnim V (frame + keyframeStep skelAnim) vm'
                  = Some (va, m0 + nat (min 20 (max (j + 1) (frames_below skelAnim)))) \<and>
              sampled upd model skelAnim V va (max (j + 1) (frames_below skelAnim)) \<and>
              duration va = duration (fst vm') \<and> name va = name (fst vm')"
      by (rule "1.IH" [OF True fit, unfolded vm'_eq, OF "1.prems"(1,2) j1 fr samp cnt heap'])
    with cap show ?thesis
      unfolding step mx by simp
  qed
qed

lemma frames_below_nonneg: "0 \<le> frames_below skelAnim"
  by (simp add: frames_below_def)

lemma bake_clip:
  assumes "animVertices (meshes model ! 0) \<noteq> None" "frameCount skelAnim \<le> INT_MAX - 7"
    and "length (keyframes old) = 20"
    and "\<forall>m. m < m0 + clip_keyframes skelAnim \<longrightarrow> h m \<noteq> None"
  shows "\<exists>va. bake_frames h upd model skelAnim V 0
                 (old\<lparr>name := nm, keyframeCount := 0,
                      duration := fdiv (float_of_int (frameCount skelAnim)) (Finite 20),
                      looping := True\<rparr>, m0)
                 = Some (va, m0 + clip_keyframes skelAnim) \<and>
              baked_clip upd model skelAnim V va"
proof -
  let ?va = "old\<lparr>name := nm, keyframeCount := 0,
                  duration := fdiv (float_of_int (frameCount skelAnim)) (Finite 20),
                  looping := True\<rparr>"
  have mx: "max 0 (frames_below skelAnim) = frames_below skelAnim"
    using frames_below_nonneg [of skelAnim] by simp
  have "sampled upd model skelAnim V (fst (?va, m0)) 0"
    using assms(3) by (auto simp: sampled_def)
  moreover have "snd (?va, m0) = m0 + nat (min 20 0)"
    by simp
  moreover have "\<forall>m. m < m0 + nat (min 20 (max 0 (frames_below skelAnim))) \<longrightarrow> h m \<noteq> None"
    using assms(4) by (simp add: mx clip_keyframes_def)
  ultimately obtain va where
    "bake_frames h upd model skelAnim V 0 (?va, m0)
       = Some (va, m0 + nat (min 20 (frames_below skelAnim)))"
    "sampled upd model skelAnim V va (frames_below skelAnim)"
    "duration va = fdiv (float_of_int (frameCount skelAnim)) (Finite 20)"
    using bake_frames_sampled [OF assms(1,2), of 0 0 upd V "(?va, m0)" m0 h]
    by (auto simp: mx)
  then show ?thesis
    by (auto simp: baked_clip_def clip_keyframes_def)
qed

text \<open>The allocations of the clips from \<open>a\<close> on, of the \<open>n\<close> clips to bake.\<close>

lemma allocations_step:
  assumes "0 \<le> a" "a < n" "nat n \<le> length anims"
  shows "sum_list (map clip_keyframes (drop (nat a) (take (nat n) anims)))
           = clip_keyframes (anims ! nat a)
             + sum_list (map clip_keyframes (drop (nat (a + 1)) (take (nat n) anims)))"
proof -
  from assms have "nat a < length (take (nat n) anims)"
    by simp
  then have "drop (nat a) (take (nat n) anims)
               = take (nat n) anims ! nat a # drop (Suc (nat a)) (take (nat n) anims)"
    by (rule Cons_nth_drop_Suc [symmetric])
  moreover from assms have "take (nat n) anims ! nat a = anims ! nat a" "Suc (nat a) = nat (a + 1)"
    by simp_all
  ultimately show ?thesis
    by simp
qed

lemma bake_animations_result:
  "\<lbrakk>animVertices (meshes model ! 0) \<noteq> None;
    0 \<le> a; a \<le> n; n \<le> 8; nat n \<le> length anims;
    \<forall>b. a \<le> b \<and> b < n \<longrightarrow> frameCount (anims ! nat b) \<le> INT_MAX - 7;
    \<forall>m. m < snd sm + sum_list (map clip_keyframes (drop (nat a) (take (nat n) anims)))
           \<longrightarrow> h m \<noteq> None;
    length (animations (fst sm)) = 8;
    \<forall>b. b < 8 \<longrightarrow> length (keyframes (animations (fst sm) ! b)) = 20\<rbrakk>
     \<Longrightarrow> \<exists>clips.
           bake_animations h upd model anims n a sm
             = Some ((fst sm)\<lparr>animations := clips\<rparr>,
                     snd sm + sum_list (map clip_keyframes (drop (nat a) (take (nat n) anims)))) \<and>
           length clips = 8 \<and>
           (\<forall>b. a \<le> b \<and> b < n \<longrightarrow>
              baked_clip upd model (anims ! nat b) (vertexCount (fst sm)) (clips ! nat b)) \<and>
           (\<forall>b. b < nat a \<longrightarrow> clips ! b = animations (fst sm) ! b)"
proof (induction h upd model anims n a sm rule: bake_animations.induct)
  case (1 h upd model anims n a sm)
  note eq = bake_animations.simps [of h upd model anims n a sm]
  let ?rest = "\<lambda>a. sum_list (map clip_keyframes (drop (nat a) (take (nat n) anims)))"
  show ?case
  proof (cases "a < n")
    case False
    with "1.prems"(3) have an: "a = n"
      by simp
    from False have "bake_animations h upd model anims n a sm = Some sm"
      by (simp add: eq)
    then show ?thesis
      unfolding an using "1.prems"(8) by (intro exI [of _ "animations (fst sm)"]) auto
  next
    case True
    with "1.prems" have inb: "nat a < length anims" and a8: "nat a < 8"
      by linarith+
    let ?s = "fst sm"
    let ?skel = "anims ! nat a"
    let ?vertAnim = "(animations ?s ! nat a)
        \<lparr>name := (if a < 8 then animNames ! nat a else ''Unknown''),
         keyframeCount := 0,
         duration := fdiv (float_of_int (frameCount ?skel)) (Finite 20),
         looping := True\<rparr>"
    have split: "?rest a = clip_keyframes ?skel + ?rest (a + 1)"
      using "1.prems"(2) True "1.prems"(5) by (rule allocations_step)
    from "1.prems"(8,9) a8 have len_old: "length (keyframes (animations ?s ! nat a)) = 20"
      by simp
    from "1.prems"(6) "1.prems"(2) True have small: "frameCount ?skel \<le> INT_MAX - 7"
      by simp
    from "1.prems"(7) have "\<forall>m. m < snd sm + clip_keyframes ?skel \<longrightarrow> h m \<noteq> None"
      by (simp add: split)
    from bake_clip [OF "1.prems"(1) small len_old this, of upd "vertexCount ?s"
        "if a < 8 then animNames ! nat a else ''Unknown''"]
    obtain va where bf: "bake_frames h upd model ?skel (vertexCount ?s) 0 (?vertAnim, snd sm)
                           = Some (va, snd sm + clip_keyframes ?skel)"
      and clip: "baked_clip upd model ?skel (vertexCount ?s) va"
      by blast
    define sm' where "sm' = (?s\<lparr>animations := (animations ?s)[nat a := va]\<rparr>,
                             snd sm + clip_keyframes ?skel)"
    have step: "bake_animations h upd model anims n a sm
                  = bake_animations h upd model anims n (a + 1) sm'"
      using True inb bf by (simp add: eq Let_def sm'_def)
    from clip have len_new: "length (keyframes va) = 20"
      by (simp add: baked_clip_def sampled_def)
    have lens: "\<forall>b. b < 8 \<longrightarrow> length (keyframes (animations (fst sm') ! b)) = 20"
      using "1.prems"(8,9) len_new a8 by (auto simp: sm'_def nth_list_update)
    have heap': "\<forall>m. m < snd sm' + ?rest (a + 1) \<longrightarrow> h m \<noteq> None"
      using "1.prems"(7) by (simp add: split sm'_def add.assoc)
    have "\<exists>clips.
           bake_animations h upd model anims n (a + 1) sm'
             = Some ((fst sm')\<lparr>animations := clips\<rparr>, snd sm' + ?rest (a + 1)) \<and>
           length clips = 8 \<and>
           (\<forall>b. a + 1 \<le> b \<and> b < n \<longrightarrow>
              baked_clip upd model (anims ! nat b) (vertexCount (fst sm')) (clips ! nat b)) \<and>
           (\<forall>b. b < nat (a + 1) \<longrightarrow> clips ! b = animations (fst sm') ! b)"
      using "1.IH" [OF True inb refl refl refl bf] "1.prems" True lens heap'
      by (simp add: sm'_def)
    then obtain clips where res: "bake_animations h upd model anims n (a + 1) sm'
             = Some ((fst sm')\<lparr>animations := clips\<rparr>, snd sm' + ?rest (a + 1))"
      and len: "length clips = 8"
      and later: "\<forall>b. a + 1 \<le> b \<and> b < n \<longrightarrow>
              baked_clip upd model (anims ! nat b) (vertexCount (fst sm')) (clips ! nat b)"
      and earlier: "\<forall>b. b < nat (a + 1) \<longrightarrow> clips ! b = animations (fst sm') ! b"
      by blast
    have res': "bake_animations h upd model anims n a sm
                  = Some (?s\<lparr>animations := clips\<rparr>, snd sm + ?rest a)"
      using res by (simp add: step sm'_def split add.assoc)
    have here: "clips ! nat a = va"
      using earlier "1.prems"(2,8) a8 by (simp add: sm'_def)
    have all: "baked_clip upd model (anims ! nat b) (vertexCount ?s) (clips ! nat b)"
      if b: "a \<le> b \<and> b < n" for b
    proof (cases "b = a")
      case True
      with here clip show ?thesis
        by simp
    next
      case False
      with b have "a + 1 \<le> b \<and> b < n"
        by simp
      with later show ?thesis
        by (simp add: sm'_def)
    qed
    have before: "clips ! b = animations ?s ! b" if b: "b < nat a" for b
    proof -
      from b "1.prems"(2) have "b < nat (a + 1)" "b \<noteq> nat a"
        by linarith+
      with earlier show ?thesis
        by (simp add: sm'_def)
    qed
    from res' len all before show ?thesis
      by blast
  qed
qed

lemma bake_result:
  assumes "initialized s" "arrays_ok s"
    and "Anim4dcCheckModelCompatibility model anims count = Some True"
    and "animVertices (meshes model ! 0) \<noteq> None"
    and "n = min count ANIM4DC_MAX_ANIMATIONS"
    and "nat n \<le> length anims"
    and "\<forall>b. 0 \<le> b \<and> b < n \<longrightarrow> frameCount (anims ! nat b) \<le> INT_MAX - 7"
    and "\<forall>m. m < keyframe_allocations anims n \<longrightarrow> h m \<noteq> None"
  shows "\<exists>s' stats'.
           Anim4dcBakeVertexAnimations h upd (s, stats) model anims count
             = Some (h (keyframe_allocations anims n) \<noteq> None, s', stats') \<and>
           vertexCount s' = mesh_vertexCount (meshes model ! 0) \<and>
           animationCount s' = n \<and>
           (\<forall>b. 0 \<le> b \<and> b < n \<longrightarrow>
              baked_clip upd model (anims ! nat b) (vertexCount s') (animations s' ! nat b))"
proof -
  let ?n = "if count > ANIM4DC_MAX_ANIMATIONS then ANIM4DC_MAX_ANIMATIONS else count"
  let ?V = "mesh_vertexCount (meshes model ! 0)"
  let ?s1 = "s\<lparr>animationCount := ?n, vertexCount := ?V\<rparr>"
  let ?K = "keyframe_allocations anims n"
  have n: "?n = n"
    using assms(5) by simp
  from assms(3) have "0 < count"
    by (simp add: Anim4dcCheckModelCompatibility_def split: if_splits)
  with assms(5) have n0: "0 \<le> n" and n8: "n \<le> 8"
    by (simp_all add: ANIM4DC_MAX_ANIMATIONS_def)
  from assms(2) have len: "length (animations (fst (?s1, 0::nat))) = 8"
    and lens: "\<forall>b. b < 8 \<longrightarrow> length (keyframes (animations (fst (?s1, 0::nat)) ! b)) = 20"
    by (simp_all add: arrays_ok_def ANIM4DC_MAX_ANIMATIONS_def ANIM4DC_MAX_KEYFRAMES_def
          list_all_length)
  have K: "snd (?s1, 0::nat) + sum_list (map clip_keyframes (drop (nat 0) (take (nat n) anims))) = ?K"
    by (simp add: keyframe_allocations_def)
  have heap: "\<forall>m. m < snd (?s1, 0::nat)
                        + sum_list (map clip_keyframes (drop (nat 0) (take (nat n) anims)))
                \<longrightarrow> h m \<noteq> None"
    using assms(8) unfolding K .
  have "(0::int) \<le> 0"
    by simp
  from bake_animations_result [OF assms(4) this n0 n8 assms(6,7) heap len lens, of upd]
  obtain clips where
    res: "bake_animations h upd model anims n 0 (?s1, 0) = Some (?s1\<lparr>animations := clips\<rparr>, ?K)"
    and clips: "\<forall>b. 0 \<le> b \<and> b < n \<longrightarrow> baked_clip upd model (anims ! nat b) ?V (clips ! nat b)"
    unfolding K by auto
  show ?thesis
  proof (cases "h ?K")
    case None
    then have "malloc h ?K (?V * 3) = None"
      by (simp add: malloc_def)
    with assms(1,3) res None
    have "Anim4dcBakeVertexAnimations h upd (s, stats) model anims count
            = Some (h ?K \<noteq> None, ?s1\<lparr>animations := clips, interpolationBuffer := None\<rparr>, stats)"
      unfolding n [symmetric] by (simp add: Anim4dcBakeVertexAnimations_def Let_def)
    with clips show ?thesis
      unfolding n [symmetric]
      by (intro exI [of _ "?s1\<lparr>animations := clips, interpolationBuffer := None\<rparr>"]
            exI [of _ stats]) simp
  next
    case (Some fill)
    then have fresh: "malloc h ?K (?V * 3) = Some (map fill [0..<nat (?V * 3)])"
      by (simp add: malloc_def)
    let ?s3 = "?s1\<lparr>animations := clips, interpolationBuffer := Some (map fill [0..<nat (?V * 3)]),
                   currentAnimation := 0, currentTime := Finite 0\<rparr>"
    from assms(1,3) res fresh Some
    have "Anim4dcBakeVertexAnimations h upd (s, stats) model anims count
            = Some (h ?K \<noteq> None, ?s3, stats\<lparr>memoryUsageKB := Anim4dcCalculateMemoryUsage ?s3\<rparr>)"
      unfolding n [symmetric] by (simp add: Anim4dcBakeVertexAnimations_def Let_def)
    with clips show ?thesis
      unfolding n [symmetric]
      by (intro exI [of _ ?s3]
            exI [of _ "stats\<lparr>memoryUsageKB := Anim4dcCalculateMemoryUsage ?s3\<rparr>"]) simp
  qed
qed

text \<open>
  A clip whose frame count is within 7 of \<^verbatim>\<open>INT_MAX\<close>: the counter runs through the
  multiples of 8 and would pass \<^verbatim>\<open>INT_MAX\<close> before it reaches the frame count.
\<close>

lemma bake_frames_overflow:
  "\<lbrakk>INT_MAX - 7 < frameCount skelAnim; frame mod 8 = 0; frame \<le> INT_MAX\<rbrakk>
     \<Longrightarrow> bake_frames h upd model skelAnim V frame vm = None"
proof (induction h upd model skelAnim V frame vm rule: bake_frames.induct)
  case (1 h upd model skelAnim V frame vm)
  note eq = bake_frames.simps [of h upd model skelAnim V frame vm]
  from "1.prems"(1) have st: "keyframeStep skelAnim = 8"
    by (simp add: keyframeStep_def INT_MAX_def)
  from "1.prems" have lt: "frame < frameCount skelAnim"
    unfolding INT_MAX_def by presburger
  show ?case
  proof (cases "frame + keyframeStep skelAnim \<le> INT_MAX")
    case False
    with lt show ?thesis
      by (simp add: eq)
  next
    case True
    from "1.prems"(2) have "(frame + keyframeStep skelAnim) mod 8 = 0"
      by (simp add: st)
    with "1.IH" [OF lt True] "1.prems"(1) True lt show ?thesis
      by (simp add: eq)
  qed
qed

text \<open>
  C5, as the code has it. Let an initialised system bake a compatible model whose first
  mesh carries the animated-vertex buffer, let no clip to bake have a frame count within 7
  of \<^verbatim>\<open>INT_MAX\<close>, and let the allocations of the keyframes succeed: they are the first
  \<open>keyframe_allocations\<close> allocations of the bake, \<open>min 20 \<lceil>F / stride\<rceil>\<close> for each
  clip. Then the bake returns, with the result true exactly when the allocation that
  follows, that of the interpolation buffer, succeeds as well; and for each baked clip
  \<open>a\<close>, with \<open>F\<close> the frame count of its source: the stride is 8 when \<open>F > 40\<close> and 4
  otherwise; the clip holds \<open>min 20 \<lceil>F / stride\<rceil>\<close> keyframes, the \<open>k\<close>-th of which is
  the sample of the frame \<open>k * stride < F\<close> with the timestamp \<open>k * stride / 20\<close>; the
  duration of the clip is \<open>F / 20\<close>; and \<open>F = 100\<close> gives 13 keyframes. The divisions are
  those of binary32.
\<close>

theorem bake_sampling:
  assumes "initialized s" "arrays_ok s"
    and "Anim4dcCheckModelCompatibility model anims count = Some True"
    and "animVertices (meshes model ! 0) \<noteq> None"
    and "n = min count ANIM4DC_MAX_ANIMATIONS"
    and "nat n \<le> length anims"
    and "\<forall>b. 0 \<le> b \<and> b < n \<longrightarrow> frameCount (anims ! nat b) \<le> INT_MAX - 7"
    and "\<forall>m. m < keyframe_allocations anims n \<longrightarrow> h m \<noteq> None"
    and "0 \<le> a" "a < n"
    and "F = frameCount (anims ! nat a)" "stride = (if F > 40 then 8 else 4)"
  shows "\<exists>s' stats'.
           Anim4dcBakeVertexAnimations h upd (s, stats) model anims count
             = Some (h (keyframe_allocations anims n) \<noteq> None, s', stats') \<and>
           keyframeStep (anims ! nat a) = stride \<and>
           keyframeCount (animations s' ! nat a) = min 20 (max 0 ((F + stride - 1) div stride)) \<and>
           (\<forall>k. 0 \<le> k \<and> k < keyframeCount (animations s' ! nat a) \<longrightarrow>
              k * stride < F \<and>
              timestamp (keyframes (animations s' ! nat a) ! nat k)
                = fdiv (float_of_int (k * stride)) (Finite 20) \<and>
              vertices (keyframes (animations s' ! nat a) ! nat k)
                = Some (take (nat (vertexCount s' * 3)) (upd model (anims ! nat a) (k * stride)))) \<and>
           duration (animations s' ! nat a) = fdiv (float_of_int F) (Finite 20) \<and>
           (F = 100 \<longrightarrow> keyframeCount (animations s' ! nat a) = 13)"
proof -
  from bake_result [OF assms(1-8), of upd stats] assms(9,10)
  obtain s' stats' where
    res: "Anim4dcBakeVertexAnimations h upd (s, stats) model anims count
            = Some (h (keyframe_allocations anims n) \<noteq> None, s', stats')"
    and clip: "baked_clip upd model (anims ! nat a) (vertexCount s') (animations s' ! nat a)"
    by blast
  let ?skel = "anims ! nat a"
  let ?clip = "animations s' ! nat a"
  have st: "keyframeStep ?skel = stride"
    using assms(11,12) by (simp add: keyframeStep_def)
  have fb: "frames_below ?skel = max 0 ((F + stride - 1) div stride)"
    using assms(11) st by (simp add: frames_below_def)
  from clip have cnt: "keyframeCount ?clip = min 20 (frames_below ?skel)"
    and samples: "\<forall>k. 0 \<le> k \<and> k < min 20 (frames_below ?skel) \<longrightarrow>
        sample_of upd model ?skel (vertexCount s') (k * keyframeStep ?skel) (keyframes ?clip ! nat k)"
    and dur: "duration ?clip = fdiv (float_of_int F) (Finite 20)"
    using assms(11) by (simp_all add: baked_clip_def sampled_def)
  have each: "k * stride < F \<and>
              timestamp (keyframes ?clip ! nat k) = fdiv (float_of_int (k * stride)) (Finite 20) \<and>
              vertices (keyframes ?clip ! nat k)
                = Some (take (nat (vertexCount s' * 3)) (upd model ?skel (k * stride)))"
    if k: "0 \<le> k \<and> k < keyframeCount ?clip" for k
  proof -
    from k cnt have "k < frames_below ?skel"
      by simp
    with k have "k * keyframeStep ?skel < frameCount ?skel"
      by (simp add: frames_below_iff)
    moreover from k cnt samples
    have "sample_of upd model ?skel (vertexCount s') (k * keyframeStep ?skel) (keyframes ?clip ! nat k)"
      by simp
    ultimately show ?thesis
      using st assms(11) by (simp add: sample_of_def)
  qed
  have hundred: "keyframeCount ?clip = 13" if "F = 100"
    using that cnt fb assms(12) by simp
  from res st cnt fb each dur hundred show ?thesis
    by (intro exI [of _ s'] exI [of _ stats']) simp
qed

text \<open>
  A bake of two clips of 100 and 200 frames: 13 keyframes, the last one of frame 96, and
  20 keyframes, the last one of frame 152, where the cap cuts off the frames 160 to 192.
  The keyframes take the allocations 0 to 32. On the heap \<open>ex_heap_keyframes\<close> those
  succeed and the allocation 33 of the interpolation buffer fails: the bake returns false,
  and the clips are sampled all the same. On \<open>ex_heap\<close> it returns true.
\<close>

theorem bake_sampling_witness:
  "initialized ex_fresh \<and> arrays_ok ex_fresh \<and>
   Anim4dcCheckModelCompatibility ex_model [ex_anim 100, ex_anim 200] 2 = Some True \<and>
   animVertices (meshes ex_model ! 0) \<noteq> None \<and>
   keyframe_allocations [ex_anim 100, ex_anim 200] 2 = 33 \<and>
   ex_heap_keyframes 32 \<noteq> None \<and> ex_heap_keyframes 33 = None \<and>
   (\<exists>s' stats'.
      Anim4dcBakeVertexAnimations ex_heap_keyframes ex_upd (ex_fresh, zero_stats) ex_model
        [ex_anim 100, ex_anim 200] 2 = Some (False, s', stats') \<and>
      keyframeStep (ex_anim 100) = 8 \<and>
      keyframeCount (animations s' ! 0) = 13 \<and>
      timestamp (keyframes (animations s' ! 0) ! 12) = fdiv (float_of_int 96) (Finite 20) \<and>
      vertices (keyframes (animations s' ! 0) ! 12) = Some [Finite 96, Finite 0, Finite 0] \<and>
      duration (animations s' ! 0) = fdiv (float_of_int 100) (Finite 20)) \<and>
   (\<exists>s' stats'.
      Anim4dcBakeVertexAnimations ex_heap ex_upd (ex_fresh, zero_stats) ex_model
        [ex_anim 100, ex_anim 200] 2 = Some (True, s', stats') \<and>
      keyframeCount (animations s' ! 1) = 20 \<and>
      timestamp (keyframes (animations s' ! 1) ! 19) = fdiv (float_of_int 152) (Finite 20))"
proof -
  let ?anims = "[ex_anim 100, ex_anim 200]"
  have i: "initialized ex_fresh"
    by (simp add: ex_fresh_def)
  have c: "Anim4dcCheckModelCompatibility ex_model ?anims 2 = Some True"
    by code_simp
  have v: "animVertices (meshes ex_model ! 0) \<noteq> None"
    by (simp add: ex_model_def ex_mesh_def)
  have n: "(2::int) = min 2 ANIM4DC_MAX_ANIMATIONS"
    by (simp add: ANIM4DC_MAX_ANIMATIONS_def)
  have l: "nat 2 \<le> length ?anims"
    by simp
  have small: "\<forall>b. 0 \<le> b \<and> b < 2 \<longrightarrow> frameCount (?anims ! nat b) \<le> INT_MAX - 7"
  proof (intro allI impI)
    fix b :: int
    assume "0 \<le> b \<and> b < 2"
    then have "b = 0 \<or> b = 1"
      by linarith
    then show "frameCount (?anims ! nat b) \<le> INT_MAX - 7"
      by (auto simp: ex_anim_def INT_MAX_def)
  qed
  have K: "keyframe_allocations ?anims 2 = 33"
    by code_simp
  have hk: "\<forall>m. m < keyframe_allocations ?anims 2 \<longrightarrow> ex_heap_keyframes m \<noteq> None"
    by (simp add: K ex_heap_keyframes_def)
  have h: "\<forall>m. m < keyframe_allocations ?anims 2 \<longrightarrow> ex_heap m \<noteq> None"
    by (simp add: ex_heap_def)
  have e: "ex_heap_keyframes 32 \<noteq> None" "ex_heap_keyframes 33 = None" "ex_heap 33 \<noteq> None"
    by (simp_all add: ex_heap_keyframes_def ex_heap_def)
  have a0: "(0::int) \<le> 0" "(0::int) < 2" and a1: "(0::int) \<le> 1" "(1::int) < 2"
    by simp_all
  have f0: "100 = frameCount (?anims ! nat 0)" "(8::int) = (if (100::int) > 40 then 8 else 4)"
    and f1: "200 = frameCount (?anims ! nat 1)" "(8::int) = (if (200::int) > 40 then 8 else 4)"
    by (simp_all add: ex_anim_def)
  have r: "float_of_int 96 = Finite 96"
    by code_simp
  from bake_sampling [OF i ex_fresh_arrays c v n l small hk a0 f0, of ex_upd zero_stats]
  obtain s' stats' where
    b: "Anim4dcBakeVertexAnimations ex_heap_keyframes ex_upd (ex_fresh, zero_stats) ex_model
          ?anims 2 = Some (False, s', stats')"
    and k: "keyframeCount (animations s' ! nat 0) = min 20 (max 0 ((100 + 8 - 1) div 8))"
    and s: "\<forall>k. 0 \<le> k \<and> k < keyframeCount (animations s' ! nat 0) \<longrightarrow>
              k * 8 < 100 \<and>
              timestamp (keyframes (animations s' ! nat 0) ! nat k)
                = fdiv (float_of_int (k * 8)) (Finite 20) \<and>
              vertices (keyframes (animations s' ! nat 0) ! nat k)
                = Some (take (nat (vertexCount s' * 3)) (ex_upd ex_model (?anims ! nat 0) (k * 8)))"
    and d: "duration (animations s' ! nat 0) = fdiv (float_of_int 100) (Finite 20)"
    and st: "keyframeStep (?anims ! nat 0) = 8"
    unfolding K using e by auto
  from bake_result [OF i ex_fresh_arrays c v n l small hk, of ex_upd zero_stats] b
  have vc: "vertexCount s' = 1"
    by (auto simp: ex_model_def ex_mesh_def)
  from k have k13: "keyframeCount (animations s' ! 0) = 13"
    by simp
  with s [THEN spec, of 12] have "timestamp (keyframes (animations s' ! nat 0) ! nat 12)
                = fdiv (float_of_int (12 * 8)) (Finite 20) \<and>
              vertices (keyframes (animations s' ! nat 0) ! nat 12)
                = Some (take (nat (vertexCount s' * 3)) (ex_upd ex_model (?anims ! nat 0) (12 * 8)))"
    by simp
  then have t12: "timestamp (keyframes (animations s' ! 0) ! 12) = fdiv (float_of_int 96) (Finite 20)"
    and v12: "vertices (keyframes (animations s' ! 0) ! 12) = Some [Finite 96, Finite 0, Finite 0]"
    by (simp_all add: vc ex_upd_def r)
  have s8: "keyframeStep (ex_anim 100) = 8"
    using st by simp
  have one: "\<exists>s' stats'.
      Anim4dcBakeVertexAnimations ex_heap_keyframes ex_upd (ex_fresh, zero_stats) ex_model
        ?anims 2 = Some (False, s', stats') \<and>
      keyframeStep (ex_anim 100) = 8 \<and>
      keyframeCount (animations s' ! 0) = 13 \<and>
      timestamp (keyframes (animations s' ! 0) ! 12) = fdiv (float_of_int 96) (Finite 20) \<and>
      vertices (keyframes (animations s' ! 0) ! 12) = Some [Finite 96, Finite 0, Finite 0] \<and>
      duration (animations s' ! 0) = fdiv (float_of_int 100) (Finite 20)"
    using b s8 k13 t12 v12 d by simp
  from bake_sampling [OF i ex_fresh_arrays c v n l small h a1 f1, of ex_upd zero_stats]
  obtain s'' stats'' where
    b2: "Anim4dcBakeVertexAnimations ex_heap ex_upd (ex_fresh, zero_stats) ex_model
          ?anims 2 = Some (True, s'', stats'')"
    and k20: "keyframeCount (animations s'' ! nat 1) = min 20 (max 0 ((200 + 8 - 1) div 8))"
    and s20: "\<forall>k. 0 \<le> k \<and> k < keyframeCount (animations s'' ! nat 1) \<longrightarrow>
              timestamp (keyframes (animations s'' ! nat 1) ! nat k)
                = fdiv (float_of_int (k * 8)) (Finite 20)"
    unfolding K using e by auto
  from k20 have k20': "keyframeCount (animations s'' ! 1) = 20"
    by simp
  with s20 [THEN spec, of 19] have "timestamp (keyframes (animations s'' ! nat 1) ! nat 19)
                = fdiv (float_of_int (19 * 8)) (Finite 20)"
    by simp
  then have t19: "timestamp (keyframes (animations s'' ! 1) ! 19) = fdiv (float_of_int 152) (Finite 20)"
    by simp
  have two: "\<exists>s' stats'.
      Anim4dcBakeVertexAnimations ex_heap ex_upd (ex_fresh, zero_stats) ex_model
        ?anims 2 = Some (True, s', stats') \<and>
      keyframeCount (animations s' ! 1) = 20 \<and>
      timestamp (keyframes (animations s' ! 1) ! 19) = fdiv (float_of_int 152) (Finite 20)"
    using b2 k20' t19 by blast
  from i ex_fresh_arrays c v K e(1,2) one two show ?thesis
    by simp
qed

text \<open>
  The conditions are needed. The compatibility check accepts a model when any mesh
  is skinned, but the bake samples \<^verbatim>\<open>meshes[0]\<close> only: for a model whose first mesh has no
  animated vertices the bake of a clip of 100 frames returns true with no keyframe at all.
  A keyframe whose allocation fails is skipped: when the second allocation fails, the
  clip has 12 keyframes and its second keyframe is frame 16, not frame 8. And for a clip of
  \<^verbatim>\<open>INT_MAX\<close> frames the frame counter overflows, so that the bake has no result.
\<close>

theorem bake_sampling_counterexample:
  "Anim4dcCheckModelCompatibility ex_two_mesh_model [ex_anim 100] 1 = Some True \<and>
   map_option (\<lambda>r. (fst r, keyframeCount (animations (fst (snd r)) ! 0)))
     (Anim4dcBakeVertexAnimations ex_heap ex_upd (ex_fresh, zero_stats) ex_two_mesh_model
        [ex_anim 100] 1)
     = Some (True, 0) \<and>
   map_option (\<lambda>r. (fst r, keyframeCount (animations (fst (snd r)) ! 0),
                     map timestamp (take 2 (keyframes (animations (fst (snd r)) ! 0)))))
     (Anim4dcBakeVertexAnimations ex_heap_gap ex_upd (ex_fresh, zero_stats) ex_model
        [ex_anim 100] 1)
     = Some (True, 12, [Finite 0, fdiv (float_of_int 16) (Finite 20)]) \<and>
   Anim4dcCheckModelCompatibility ex_model [ex_anim INT_MAX] 1 = Some True \<and>
   Anim4dcBakeVertexAnimations ex_heap ex_upd (ex_fresh, zero_stats) ex_model [ex_anim INT_MAX] 1
     = None"
proof -
  have static: "Anim4dcCheckModelCompatibility ex_two_mesh_model [ex_anim 100] 1 = Some True \<and>
     map_option (\<lambda>r. (fst r, keyframeCount (animations (fst (snd r)) ! 0)))
       (Anim4dcBakeVertexAnimations ex_heap ex_upd (ex_fresh, zero_stats) ex_two_mesh_model
          [ex_anim 100] 1)
       = Some (True, 0)"
    by code_simp
  have gap: "map_option (\<lambda>r. (fst r, keyframeCount (animations (fst (snd r)) ! 0),
                     map timestamp (take 2 (keyframes (animations (fst (snd r)) ! 0)))))
     (Anim4dcBakeVertexAnimations ex_heap_gap ex_upd (ex_fresh, zero_stats) ex_model
        [ex_anim 100] 1)
     = Some (True, 12, [Finite 0, fdiv (float_of_int 16) (Finite 20)])"
    by code_simp
  have c: "Anim4dcCheckModelCompatibility ex_model [ex_anim INT_MAX] 1 = Some True"
    by (simp add: Anim4dcCheckModelCompatibility_def ex_model_def ex_mesh_def ex_anim_def
          has_skinning_from.simps [of _ 0])
  have "bake_frames ex_heap ex_upd ex_model (ex_anim INT_MAX) V 0 vm = None" for V vm
    by (rule bake_frames_overflow) (simp_all add: ex_anim_def INT_MAX_def)
  then have "bake_animations ex_heap ex_upd ex_model [ex_anim INT_MAX] 1 0 sm = None" for sm
    by (simp add: bake_animations.simps [of _ _ _ _ 1 0] Let_def)
  with c have "Anim4dcBakeVertexAnimations ex_heap ex_upd (ex_fresh, zero_stats) ex_model
                 [ex_anim INT_MAX] 1 = None"
    by (simp add: Anim4dcBakeVertexAnimations_def ex_fresh_def ANIM4DC_MAX_ANIMATIONS_def Let_def)
  with static gap c show ?thesis
    by simp
qed

end
